theory Spec2Isabelle
  imports Main "HOL-Library.Sublist"
begin

section \<open>JavaScript values and string primitives\<close>

text \<open>
  The values that flow through \<^verbatim>\<open>pg-query-builder.js\<close>. Numbers are modelled by the
  integers, a string is a list of code units below 256, an object is the list of its own
  properties in \<^verbatim>\<open>Object.keys\<close> order, an array is the list of its elements, and a
  function is known by its name only.
\<close>

datatype jsval =
    JUndefined
  | JNull
  | JBool bool
  | JNum int
  | JStr string
  | JArr "jsval list"
  | JObj "(string \<times> jsval) list"
  | JFun string

type_synonym row = "(string \<times> jsval) list"

text \<open>\<^verbatim>\<open>typeof v\<close>, \<^verbatim>\<open>Array.isArray(v)\<close> and \<^verbatim>\<open>Object.keys(o)\<close>.\<close>

fun typeof :: "jsval \<Rightarrow> string" where
  "typeof JUndefined = ''undefined''"
| "typeof JNull = ''object''"
| "typeof (JBool b) = ''boolean''"
| "typeof (JNum n) = ''number''"
| "typeof (JStr s) = ''string''"
| "typeof (JArr xs) = ''object''"
| "typeof (JObj kvs) = ''object''"
| "typeof (JFun name) = ''function''"

fun isArray :: "jsval \<Rightarrow> bool" where
  "isArray (JArr xs) = True"
| "isArray v = False"

definition object_keys :: "row \<Rightarrow> string list" where
  "object_keys r = map fst r"

text \<open>
  The property read \<^verbatim>\<open>o[key]\<close> on a plain object: an own property first, then the
  properties every plain object inherits from \<^verbatim>\<open>Object.prototype\<close> (its methods, and
  \<^verbatim>\<open>__proto__\<close>, which reads as the prototype, an object with no enumerable property);
  any other key reads as \<^verbatim>\<open>undefined\<close>.
\<close>

definition object_prototype :: "string \<Rightarrow> jsval option" where
  "object_prototype k =
     (if k \<in> set [''constructor'', ''hasOwnProperty'', ''isPrototypeOf'',
                    ''propertyIsEnumerable'', ''toLocaleString'', ''toString'', ''valueOf'',
                    ''__defineGetter__'', ''__defineSetter__'', ''__lookupGetter__'',
                    ''__lookupSetter__'']
      then Some (JFun (if k = ''constructor'' then ''Object'' else k))
      else if k = ''__proto__'' then Some (JObj [])
      else None)"

definition obj_get :: "row \<Rightarrow> string \<Rightarrow> jsval" where
  "obj_get r k =
     (case map_of r k of
        Some v \<Rightarrow> v
      | None \<Rightarrow> (case object_prototype k of Some v \<Rightarrow> v | None \<Rightarrow> JUndefined))"

text \<open>\<^verbatim>\<open>delete o[key]\<close> and the assignment \<^verbatim>\<open>o[key] = v\<close>: an existing own property keeps
  its place, a new one is added last; an assignment to \<^verbatim>\<open>__proto__\<close> on an object that has
  no such own property goes to the inherited setter and adds no property.\<close>

definition obj_delete :: "row \<Rightarrow> string \<Rightarrow> row" where
  "obj_delete r k = filter (\<lambda>kv. fst kv \<noteq> k) r"

fun obj_set :: "row \<Rightarrow> string \<Rightarrow> jsval \<Rightarrow> row" where
  "obj_set [] k v = (if k = ''__proto__'' then [] else [(k, v)])"
| "obj_set (kv # r) k v = (if fst kv = k then (k, v) # r else kv # obj_set r k v)"

text \<open>Decimal text of a number, as a template literal interpolates it.\<close>

definition digit_char :: "nat \<Rightarrow> char" where
  "digit_char d = char_of (48 + d)"

fun show_nat :: "nat \<Rightarrow> string" where
  "show_nat n = (if n < 10 then [digit_char n] else show_nat (n div 10) @ [digit_char (n mod 10)])"

declare show_nat.simps [simp del]

definition show_int :: "int \<Rightarrow> string" where
  "show_int i = (if i < 0 then CHR ''-'' # show_nat (nat (- i)) else show_nat (nat i))"

text \<open>\<^verbatim>\<open>xs.join(sep)\<close> on an array of strings.\<close>

fun js_join :: "string \<Rightarrow> string list \<Rightarrow> string" where
  "js_join sep [] = []"
| "js_join sep [x] = x"
| "js_join sep (x # y # ys) = x @ sep @ js_join sep (y # ys)"

text \<open>\<^verbatim>\<open>s.includes(sub)\<close> and \<^verbatim>\<open>s.split(sep)\<close> for a non-empty separator: the separator is
  searched from the left, and the search resumes after each occurrence. The accumulator
  holds, reversed, the piece being read.\<close>

fun js_includes :: "string \<Rightarrow> string \<Rightarrow> bool" where
  "js_includes sub [] = (sub = [])"
| "js_includes sub (c # cs) = (prefix sub (c # cs) \<or> js_includes sub cs)"

function split_from :: "string \<Rightarrow> string \<Rightarrow> string \<Rightarrow> string list" where
  "split_from sep acc s =
     (if s = [] then [rev acc]
      else if sep \<noteq> [] \<and> prefix sep s then rev acc # split_from sep [] (drop (length sep) s)
      else split_from sep (hd s # acc) (tl s))"
  by pat_completeness auto
termination
  by (relation "measure (\<lambda>(sep, acc, s). length s)") auto

declare split_from.simps [simp del]

definition js_split :: "string \<Rightarrow> string \<Rightarrow> string list" where
  "js_split sep s = split_from sep [] s"

text \<open>White space as \<^verbatim>\<open>trim()\<close> and the regular-expression class \<^verbatim>\<open>\s\<close> see it (tab, line
  feed, vertical tab, form feed, carriage return, space, no-break space), and the word
  characters of \<^verbatim>\<open>\w\<close>.\<close>

definition is_space :: "char \<Rightarrow> bool" where
  "is_space c = (of_char c \<in> {9, 10, 11, 12, 13, 32, 160 :: nat})"

definition is_word :: "char \<Rightarrow> bool" where
  "is_word c =
     (let n = (of_char c :: nat)
      in (48 \<le> n \<and> n \<le> 57) \<or> (65 \<le> n \<and> n \<le> 90) \<or> (97 \<le> n \<and> n \<le> 122) \<or> n = 95)"

definition js_trim :: "string \<Rightarrow> string" where
  "js_trim s = rev (dropWhile is_space (rev (dropWhile is_space s)))"


section \<open>The builder state\<close>

text \<open>The fields of \<^verbatim>\<open>class QueryBuilder\<close>; \<^verbatim>\<open>null\<close> is \<open>None\<close>. The pool is not part
  of the state: it is passed to the execution functions.\<close>

datatype operation_kind = Select | Insert | Update | Upsert

record join_spec =
  jtable :: string
  jcolumns :: "string list"
  fk :: string

record QueryBuilder =
  table :: "string option"
  operation :: "operation_kind option"
  selectCols :: string
  countExact :: bool
  joins :: "join_spec list"
  wheres :: "string list"
  params :: "jsval list"
  orderClauses :: "string list"
  limitVal :: "int option"
  singleResult :: bool
  insertData :: "row list option"
  updateData :: "row option"
  upsertConflict :: "string option"
  returnData :: bool

text \<open>The constructor, and \<^verbatim>\<open>from(table)\<close>, which builds a fresh builder whatever the
  receiver holds.\<close>

definition new_builder :: QueryBuilder where
  "new_builder =
     \<lparr>table = None, operation = None, selectCols = ''*'', countExact = False, joins = [],
      wheres = [], params = [], orderClauses = [], limitVal = None, singleResult = False,
      insertData = None, updateData = None, upsertConflict = None, returnData = False\<rparr>"

definition from_q :: "string \<Rightarrow> QueryBuilder \<Rightarrow> QueryBuilder" where
  "from_q t this = new_builder\<lparr>table := Some t\<rparr>"

subsection \<open>Column references and bound values\<close>

text \<open>\<^verbatim>\<open>_pgCol\<close>: \<^verbatim>\<open>parts[0]\<close> and \<^verbatim>\<open>parts[1]\<close> of the split exist whenever the column
  includes the separator.\<close>

definition pgCol :: "string \<Rightarrow> string" where
  "pgCol col =
     (if js_includes ''->'' col then
        (let parts = js_split ''->'' col
         in parts ! 0 @ ''->>'' @ [CHR 0x27] @ parts ! 1 @ [CHR 0x27])
      else [CHR 0x22] @ col @ [CHR 0x22])"

text \<open>\<^verbatim>\<open>_pgVal\<close>; \<^verbatim>\<open>JSON.stringify\<close> is the host's and is a parameter.\<close>

definition pgVal :: "(jsval \<Rightarrow> string) \<Rightarrow> jsval \<Rightarrow> jsval" where
  "pgVal stringify val =
     (if val = JNull \<or> val = JUndefined then val
      else if isArray val then
        (case val of
           JArr xs \<Rightarrow>
             if length xs = 0 then JStr ''{}''
             else if typeof (xs ! 0) = ''object'' \<and> xs ! 0 \<noteq> JNull then JStr (stringify val)
             else val
         | _ \<Rightarrow> val)
      else if typeof val = ''object'' then JStr (stringify val)
      else val)"

subsection \<open>Filter methods\<close>

text \<open>Each method pushes the value first and then numbers the placeholder by the new
  length of the parameter list.\<close>

definition placeholder :: "nat \<Rightarrow> string" where
  "placeholder n = CHR ''$'' # show_nat n"

definition push_filter :: "string \<Rightarrow> string \<Rightarrow> jsval \<Rightarrow> QueryBuilder \<Rightarrow> QueryBuilder" where
  "push_filter opr column val this =
     (let ps = params this @ [val]
      in this\<lparr>params := ps,
               wheres := wheres this @ [pgCol column @ '' '' @ opr @ '' '' @ placeholder (length ps)]\<rparr>)"

definition eq :: "string \<Rightarrow> jsval \<Rightarrow> QueryBuilder \<Rightarrow> QueryBuilder" where
  "eq column val this = push_filter ''='' column val this"

definition neq :: "string \<Rightarrow> jsval \<Rightarrow> QueryBuilder \<Rightarrow> QueryBuilder" where
  "neq column val this = push_filter ''!='' column val this"

definition not_q :: "string \<Rightarrow> string \<Rightarrow> jsval \<Rightarrow> QueryBuilder \<Rightarrow> QueryBuilder" where
  "not_q column opr val this =
     (if opr = ''is'' \<and> val = JNull then
        this\<lparr>wheres := wheres this @ [pgCol column @ '' IS NOT NULL'']\<rparr>
      else if opr = ''eq'' then push_filter ''!='' column val this
      else this)"

definition is_q :: "string \<Rightarrow> jsval \<Rightarrow> QueryBuilder \<Rightarrow> QueryBuilder" where
  "is_q column val this =
     (if val = JNull then this\<lparr>wheres := wheres this @ [pgCol column @ '' IS NULL'']\<rparr>
      else push_filter ''IS'' column val this)"

definition gt :: "string \<Rightarrow> jsval \<Rightarrow> QueryBuilder \<Rightarrow> QueryBuilder" where
  "gt column val this = push_filter ''>'' column val this"

definition gte :: "string \<Rightarrow> jsval \<Rightarrow> QueryBuilder \<Rightarrow> QueryBuilder" where
  "gte column val this = push_filter ''>='' column val this"

definition lt :: "string \<Rightarrow> jsval \<Rightarrow> QueryBuilder \<Rightarrow> QueryBuilder" where
  "lt column val this = push_filter ''<'' column val this"

definition lte :: "string \<Rightarrow> jsval \<Rightarrow> QueryBuilder \<Rightarrow> QueryBuilder" where
  "lte column val this = push_filter ''<='' column val this"

subsection \<open>Shaping methods\<close>

text \<open>\<^verbatim>\<open>order(column, options)\<close>: the argument is \<^verbatim>\<open>options.ascending\<close>, \<open>None\<close> when it
  is not given.\<close>

definition order_q :: "string \<Rightarrow> bool option \<Rightarrow> QueryBuilder \<Rightarrow> QueryBuilder" where
  "order_q column ascending this =
     (let dir = (if ascending = Some False then ''DESC'' else ''ASC'')
      in this\<lparr>orderClauses := orderClauses this @ [pgCol column @ '' '' @ dir]\<rparr>)"

definition limit :: "int \<Rightarrow> QueryBuilder \<Rightarrow> QueryBuilder" where
  "limit n this = this\<lparr>limitVal := Some n\<rparr>"

definition single :: "QueryBuilder \<Rightarrow> QueryBuilder" where
  "single this = this\<lparr>singleResult := True, limitVal := Some 1\<rparr>"


text \<open>
  The regular expression \<^verbatim>\<open>/,?\s*(\w+)\(([^)]+)\)/\<close> of \<^verbatim>\<open>select\<close>, tried at one start:
  an optional comma, white space, the word (group 1), an opening parenthesis, the
  characters up to the next closing parenthesis (group 2, not empty), and that
  parenthesis. Every quantifier is greedy and what follows it cannot start with a
  character the quantifier accepts, so backtracking never finds another match at the
  same start. The result is the two groups and the text after the match.
\<close>

definition match_here :: "string \<Rightarrow> (string \<times> string \<times> string) option" where
  "match_here s =
     (let s1 = (case s of [] \<Rightarrow> s | c # cs \<Rightarrow> if c = CHR '','' then cs else s);
          s2 = dropWhile is_space s1;
          g1 = takeWhile is_word s2;
          s3 = dropWhile is_word s2
      in if g1 = [] then None
         else (case s3 of
                 [] \<Rightarrow> None
               | c # s4 \<Rightarrow>
                   if c \<noteq> CHR ''('' then None
                   else (let g2 = takeWhile (\<lambda>d. d \<noteq> CHR '')'') s4;
                             s5 = dropWhile (\<lambda>d. d \<noteq> CHR '')'') s4
                         in if g2 = [] then None
                            else (case s5 of [] \<Rightarrow> None | d # rest \<Rightarrow> Some (g1, g2, rest)))))"

text \<open>The leftmost match: the text before it (accumulated reversed), the groups, the
  text after it.\<close>

fun join_match :: "string \<Rightarrow> string \<Rightarrow> (string \<times> string \<times> string \<times> string) option" where
  "join_match pre [] =
     (case match_here [] of None \<Rightarrow> None | Some (g1, g2, rest) \<Rightarrow> Some (rev pre, g1, g2, rest))"
| "join_match pre (c # cs) =
     (case match_here (c # cs) of
        None \<Rightarrow> join_match (c # pre) cs
      | Some (g1, g2, rest) \<Rightarrow> Some (rev pre, g1, g2, rest))"

text \<open>\<^verbatim>\<open>replace(/,\s*$/, '')\<close> removes the leftmost comma that only white space follows,
  with that white space; \<^verbatim>\<open>replace(/s$/, '')\<close> removes a final \<^verbatim>\<open>s\<close>.\<close>

fun strip_trailing_comma :: "string \<Rightarrow> string" where
  "strip_trailing_comma [] = []"
| "strip_trailing_comma (c # cs) =
     (if c = CHR '','' \<and> list_all is_space cs then [] else c # strip_trailing_comma cs)"

definition strip_final_s :: "string \<Rightarrow> string" where
  "strip_final_s s = (if s \<noteq> [] \<and> last s = CHR ''s'' then butlast s else s)"

text \<open>\<^verbatim>\<open>select(columns = '*', options = {})\<close>: the arguments are \<^verbatim>\<open>columns\<close> (\<open>None\<close> when
  it is not given) and \<^verbatim>\<open>options.count\<close>.\<close>

definition select_q :: "string option \<Rightarrow> string option \<Rightarrow> QueryBuilder \<Rightarrow> QueryBuilder" where
  "select_q columns_arg count_opt this =
     (let columns = (case columns_arg of None \<Rightarrow> ''*'' | Some c \<Rightarrow> c)
      in if operation this = Some Insert \<or> operation this = Some Update
            \<or> operation this = Some Upsert
         then this\<lparr>returnData := True\<rparr>
         else
           (let this1 = this\<lparr>operation := Some Select, countExact := (count_opt = Some ''exact'')\<rparr>
            in case join_match [] columns of
                 Some (before, g1, g2, rest) \<Rightarrow>
                   (let stripped = strip_trailing_comma (js_trim (before @ rest));
                        cleanCols = (if stripped = [] then ''*'' else stripped)
                    in this1\<lparr>selectCols := cleanCols,
                              joins := joins this1 @
                                [\<lparr>jtable = g1,
                                  jcolumns = map js_trim (js_split '','' g2),
                                  fk = strip_final_s g1 @ ''_id''\<rparr>]\<rparr>)
               | None \<Rightarrow> this1\<lparr>selectCols := columns\<rparr>))"

subsection \<open>Mutation entry points\<close>

text \<open>The argument of \<^verbatim>\<open>insert\<close> and \<^verbatim>\<open>upsert\<close> is one row or an array of rows.\<close>

datatype rows_arg = OneRow row | ManyRows "row list"

fun as_rows :: "rows_arg \<Rightarrow> row list" where
  "as_rows (OneRow r) = [r]"
| "as_rows (ManyRows rs) = rs"

definition insert_q :: "rows_arg \<Rightarrow> QueryBuilder \<Rightarrow> QueryBuilder" where
  "insert_q d this = this\<lparr>operation := Some Insert, insertData := Some (as_rows d)\<rparr>"

definition update_q :: "row \<Rightarrow> QueryBuilder \<Rightarrow> QueryBuilder" where
  "update_q d this = this\<lparr>operation := Some Update, updateData := Some d\<rparr>"

text \<open>\<^verbatim>\<open>options.onConflict || 'id'\<close>: a missing or empty conflict list gives \<^verbatim>\<open>'id'\<close>.\<close>

definition upsert :: "rows_arg \<Rightarrow> string option \<Rightarrow> QueryBuilder \<Rightarrow> QueryBuilder" where
  "upsert d onConflict this =
     this\<lparr>operation := Some Upsert,
          insertData := Some (as_rows d),
          upsertConflict :=
            Some (case onConflict of None \<Rightarrow> ''id'' | Some c \<Rightarrow> if c = [] then ''id'' else c)\<rparr>"

subsection \<open>Chains\<close>

text \<open>A chain is the list of the method calls made on the builder that \<^verbatim>\<open>from\<close> returned,
  in call order.\<close>

datatype call =
    CSelect "string option" "string option"
  | CEq string jsval
  | CNeq string jsval
  | CNot string string jsval
  | CIs string jsval
  | CGt string jsval
  | CGte string jsval
  | CLt string jsval
  | CLte string jsval
  | COrder string "bool option"
  | CLimit int
  | CSingle
  | CInsert rows_arg
  | CUpdate row
  | CUpsert rows_arg "string option"

fun apply_call :: "call \<Rightarrow> QueryBuilder \<Rightarrow> QueryBuilder" where
  "apply_call (CSelect c n) q = select_q c n q"
| "apply_call (CEq c v) q = eq c v q"
| "apply_call (CNeq c v) q = neq c v q"
| "apply_call (CNot c opr v) q = not_q c opr v q"
| "apply_call (CIs c v) q = is_q c v q"
| "apply_call (CGt c v) q = gt c v q"
| "apply_call (CGte c v) q = gte c v q"
| "apply_call (CLt c v) q = lt c v q"
| "apply_call (CLte c v) q = lte c v q"
| "apply_call (COrder c a) q = order_q c a q"
| "apply_call (CLimit n) q = limit n q"
| "apply_call CSingle q = single q"
| "apply_call (CInsert d) q = insert_q d q"
| "apply_call (CUpdate d) q = update_q d q"
| "apply_call (CUpsert d c) q = upsert d c q"

fun run_chain :: "call list \<Rightarrow> QueryBuilder \<Rightarrow> QueryBuilder" where
  "run_chain [] q = q"
| "run_chain (c # cs) q = run_chain cs (apply_call c q)"

text \<open>The operation of a builder is one of the three mutations (the test \<^verbatim>\<open>select\<close> makes).\<close>

definition is_mutation :: "operation_kind option \<Rightarrow> bool" where
  "is_mutation opn = (opn = Some Insert \<or> opn = Some Update \<or> opn = Some Upsert)"


section \<open>Execution\<close>

subsection \<open>The pool, errors and the envelope\<close>

text \<open>
  A thrown value is a \<open>js_error\<close>: an \<^verbatim>\<open>Error\<close> built by the builder, a \<^verbatim>\<open>TypeError\<close> of the
  runtime (a read of a property of \<^verbatim>\<open>null\<close> or \<^verbatim>\<open>undefined\<close>), or whatever the driver
  rejects with. \<open>PlainMessage m\<close> is the object literal \<^verbatim>\<open>{ message: m }\<close>, which is never
  thrown. In the envelope \<open>None\<close> is \<^verbatim>\<open>error: null\<close>, and \<open>count = JUndefined\<close> is an
  object literal that has no \<^verbatim>\<open>count\<close> property.
\<close>

datatype js_error = Error string | TypeError string | DriverError string | PlainMessage string

record envelope =
  data :: jsval
  error :: "js_error option"
  count :: jsval

datatype 'a promise = Resolved 'a | Rejected js_error

type_synonym stmt = "string \<times> jsval list"

text \<open>The host: \<^verbatim>\<open>pool.query(sql, params)\<close> over a database state of any type, returning
  \<^verbatim>\<open>result.rows\<close> or throwing, and the built-ins \<^verbatim>\<open>JSON.stringify\<close> and \<^verbatim>\<open>parseInt\<close>.\<close>

record 's host =
  pool_query :: "stmt \<Rightarrow> 's \<Rightarrow> (js_error + row list) \<times> 's"
  JSON_stringify :: "jsval \<Rightarrow> string"
  parseInt :: "jsval \<Rightarrow> jsval"

text \<open>The world of one execution: the database state and the statements sent so far.\<close>

record 's world =
  db :: 's
  issued :: "stmt list"

definition run_query :: "'s host \<Rightarrow> stmt \<Rightarrow> 's world \<Rightarrow> (js_error + row list) \<times> 's world" where
  "run_query h st w =
     (case pool_query h st (db w) of (r, s') \<Rightarrow> (r, \<lparr>db = s', issued = issued w @ [st]\<rparr>))"

subsection \<open>Statement text\<close>

definition quote_ident :: "string \<Rightarrow> string" where
  "quote_ident s = [CHR 0x22] @ s @ [CHR 0x22]"

text \<open>The table as a template literal prints it.\<close>

definition table_text :: "QueryBuilder \<Rightarrow> string" where
  "table_text this = (case table this of None \<Rightarrow> ''null'' | Some t \<Rightarrow> t)"

definition where_clause :: "string list \<Rightarrow> string" where
  "where_clause ws = (if length ws \<noteq> 0 then '' WHERE '' @ js_join '' AND '' ws else [])"

definition select_sql :: "QueryBuilder \<Rightarrow> string" where
  "select_sql this =
     (let t = table_text this;
          sql0 =
            (case joins this of
               j # js \<Rightarrow>
                 (let mainCols =
                        (if selectCols this = ''*'' then quote_ident t @ ''.*''
                         else js_join '', ''
                                (map (\<lambda>c. quote_ident t @ ''.'' @ quote_ident (js_trim c))
                                   (js_split '','' (selectCols this))));
                      joinCols =
                        js_join '', ''
                          (map (\<lambda>c. quote_ident (jtable j) @ ''.'' @ quote_ident c @ '' AS ''
                                       @ quote_ident (jtable j @ ''_'' @ c))
                             (jcolumns j))
                  in ''SELECT '' @ mainCols @ '', '' @ joinCols @ '' FROM '' @ quote_ident t
                       @ '' LEFT JOIN '' @ quote_ident (jtable j) @ '' ON '' @ quote_ident t @ ''.''
                       @ quote_ident (fk j) @ '' = '' @ quote_ident (jtable j) @ ''.''
                       @ quote_ident ''id'')
             | [] \<Rightarrow>
                 ''SELECT ''
                   @ (if selectCols this = ''*'' then ''*''
                      else js_join '', ''
                             (map (\<lambda>c. quote_ident (js_trim c)) (js_split '','' (selectCols this))))
                   @ '' FROM '' @ quote_ident t)
      in sql0 @ where_clause (wheres this)
           @ (if length (orderClauses this) \<noteq> 0
              then '' ORDER BY '' @ js_join '', '' (orderClauses this) else [])
           @ (case limitVal this of None \<Rightarrow> [] | Some n \<Rightarrow> '' LIMIT '' @ show_int n))"

definition count_sql :: "QueryBuilder \<Rightarrow> string" where
  "count_sql this =
     ''SELECT COUNT(*) FROM '' @ quote_ident (table_text this) @ where_clause (wheres this)"

text \<open>The reshaping of one row of a joined select: \<^verbatim>\<open>nested\<close> collects the aliased columns,
  \<^verbatim>\<open>main\<close> is a copy of the row that loses them and then gets the nested object.\<close>

fun lift_columns :: "join_spec \<Rightarrow> row \<Rightarrow> string list \<Rightarrow> row \<times> row \<Rightarrow> row \<times> row" where
  "lift_columns j r [] (nested, main) = (nested, main)"
| "lift_columns j r (c # cs) (nested, main) =
     lift_columns j r cs
       (obj_set nested c (obj_get r (jtable j @ ''_'' @ c)),
        obj_delete main (jtable j @ ''_'' @ c))"

definition reshape_row :: "join_spec \<Rightarrow> row \<Rightarrow> row" where
  "reshape_row j r =
     (case lift_columns j r (jcolumns j) ([], r) of
        (nested, main) \<Rightarrow> obj_set main (jtable j) (JObj nested))"

definition reshape_rows :: "QueryBuilder \<Rightarrow> row list \<Rightarrow> row list" where
  "reshape_rows this rows =
     (case joins this of [] \<Rightarrow> rows | j # js \<Rightarrow> map (reshape_row j) rows)"

text \<open>\<^verbatim>\<open>rows[0] || null\<close> for the single-row mode, otherwise the rows.\<close>

definition first_or_null :: "row list \<Rightarrow> jsval" where
  "first_or_null rows = (case rows of [] \<Rightarrow> JNull | r # rs \<Rightarrow> JObj r)"

definition rows_data :: "QueryBuilder \<Rightarrow> row list \<Rightarrow> jsval" where
  "rows_data this rows = (if singleResult this then first_or_null rows else JArr (map JObj rows))"

subsection \<open>Select\<close>

definition execSelect :: "'s host \<Rightarrow> QueryBuilder \<Rightarrow> 's world \<Rightarrow> (js_error + envelope) \<times> 's world" where
  "execSelect h this w =
     (case run_query h (select_sql this, params this) w of
        (Inl e, w1) \<Rightarrow> (Inl e, w1)
      | (Inr result_rows, w1) \<Rightarrow>
          (let rows = reshape_rows this result_rows;
               d = rows_data this rows;
               err = (if singleResult this \<and> rows = []
                      then Some (PlainMessage ''Row not found'') else None)
           in if countExact this then
                (case run_query h (count_sql this, params this) w1 of
                   (Inl e, w2) \<Rightarrow> (Inl e, w2)
                 | (Inr [], w2) \<Rightarrow> (Inl (TypeError ''Cannot read properties of undefined''), w2)
                 | (Inr (c # cs), w2) \<Rightarrow>
                     (Inr \<lparr>data = d, error = err, count = parseInt h (obj_get c ''count'')\<rparr>, w2))
              else (Inr \<lparr>data = d, error = err, count = JNull\<rparr>, w1)))"


subsection \<open>Insert, update, upsert\<close>

text \<open>The two nested \<^verbatim>\<open>forEach\<close> loops of \<^verbatim>\<open>_execInsert\<close> and \<^verbatim>\<open>_execUpsert\<close>: every key of
  the first row is read in every row, the coerced value is pushed, and the placeholder
  is numbered by the new length of \<^verbatim>\<open>values\<close>.\<close>

fun bind_keys ::
  "(jsval \<Rightarrow> string) \<Rightarrow> row \<Rightarrow> string list \<Rightarrow> jsval list \<times> string list \<Rightarrow> jsval list \<times> string list"
where
  "bind_keys sf r [] (vals, rowPlaceholders) = (vals, rowPlaceholders)"
| "bind_keys sf r (key # keys) (vals, rowPlaceholders) =
     (let vals' = vals @ [pgVal sf (obj_get r key)]
      in bind_keys sf r keys (vals', rowPlaceholders @ [placeholder (length vals')]))"

fun bind_rows ::
  "(jsval \<Rightarrow> string) \<Rightarrow> string list \<Rightarrow> row list \<Rightarrow> jsval list \<times> string list \<Rightarrow> jsval list \<times> string list"
where
  "bind_rows sf keys [] (vals, placeholders) = (vals, placeholders)"
| "bind_rows sf keys (r # rs) (vals, placeholders) =
     (case bind_keys sf r keys (vals, []) of
        (vals', rowPlaceholders) \<Rightarrow>
          bind_rows sf keys rs
            (vals', placeholders @ [''('' @ js_join '', '' rowPlaceholders @ '')'']))"

text \<open>The statement \<^verbatim>\<open>_execInsert\<close> sends for a non-empty row list.\<close>

definition insert_stmt :: "(jsval \<Rightarrow> string) \<Rightarrow> QueryBuilder \<Rightarrow> row list \<Rightarrow> stmt" where
  "insert_stmt sf this rows =
     (let keys = object_keys (rows ! 0)
      in case bind_rows sf keys rows ([], []) of
           (vals, placeholders) \<Rightarrow>
             (let quotedKeys = js_join '', '' (map quote_ident keys)
              in (''INSERT INTO '' @ quote_ident (table_text this) @ '' ('' @ quotedKeys
                    @ '') VALUES '' @ js_join '', '' placeholders
                    @ (if returnData this then '' RETURNING *'' else []),
                  vals)))"

definition execInsert :: "'s host \<Rightarrow> QueryBuilder \<Rightarrow> 's world \<Rightarrow> (js_error + envelope) \<times> 's world" where
  "execInsert h this w =
     (case insertData this of
        None \<Rightarrow> (Inl (TypeError ''Cannot read properties of null''), w)
      | Some rows \<Rightarrow>
          if length rows = 0 then (Inr \<lparr>data = JNull, error = None, count = JUndefined\<rparr>, w)
          else
            (case run_query h (insert_stmt (JSON_stringify h) this rows) w of
               (Inl e, w1) \<Rightarrow> (Inl e, w1)
             | (Inr result_rows, w1) \<Rightarrow>
                 (Inr \<lparr>data = (if returnData this then rows_data this result_rows else JNull),
                       error = None, count = JUndefined\<rparr>, w1)))"

text \<open>The loop of \<^verbatim>\<open>_execUpdate\<close> pushes onto the builder's own parameter list, after the
  values the filters have bound.\<close>

fun bind_sets ::
  "(jsval \<Rightarrow> string) \<Rightarrow> row \<Rightarrow> string list \<Rightarrow> jsval list \<times> string list \<Rightarrow> jsval list \<times> string list"
where
  "bind_sets sf d [] (ps, setClauses) = (ps, setClauses)"
| "bind_sets sf d (key # keys) (ps, setClauses) =
     (let ps' = ps @ [pgVal sf (obj_get d key)]
      in bind_sets sf d keys
           (ps', setClauses @ [quote_ident key @ '' = '' @ placeholder (length ps')]))"

definition update_stmt :: "(jsval \<Rightarrow> string) \<Rightarrow> QueryBuilder \<Rightarrow> row \<Rightarrow> stmt" where
  "update_stmt sf this d =
     (case bind_sets sf d (object_keys d) (params this, []) of
        (ps, setClauses) \<Rightarrow>
          (''UPDATE '' @ quote_ident (table_text this) @ '' SET '' @ js_join '', '' setClauses
             @ where_clause (wheres this)
             @ (if returnData this then '' RETURNING *'' else []),
           ps))"

definition execUpdate :: "'s host \<Rightarrow> QueryBuilder \<Rightarrow> 's world \<Rightarrow> (js_error + envelope) \<times> 's world" where
  "execUpdate h this w =
     (case updateData this of
        None \<Rightarrow> (Inl (TypeError ''Cannot convert undefined or null to object''), w)
      | Some d \<Rightarrow>
          (case run_query h (update_stmt (JSON_stringify h) this d) w of
             (Inl e, w1) \<Rightarrow> (Inl e, w1)
           | (Inr result_rows, w1) \<Rightarrow>
               (Inr \<lparr>data = (if returnData this then rows_data this result_rows else JNull),
                     error = None, count = JUndefined\<rparr>, w1)))"

text \<open>The conflict target: \<^verbatim>\<open>this._upsertConflict.split(',').map(c => c.trim())\<close>.\<close>

definition conflict_targets :: "string \<Rightarrow> string list" where
  "conflict_targets conflict = map js_trim (js_split '','' conflict)"

definition update_clauses :: "string list \<Rightarrow> string \<Rightarrow> string list" where
  "update_clauses keys conflict =
     map (\<lambda>k. quote_ident k @ '' = EXCLUDED.'' @ quote_ident k)
       (filter (\<lambda>k. k \<notin> set (conflict_targets conflict)) keys)"

definition upsert_stmt :: "(jsval \<Rightarrow> string) \<Rightarrow> QueryBuilder \<Rightarrow> row list \<Rightarrow> string \<Rightarrow> stmt" where
  "upsert_stmt sf this rows conflict =
     (let keys = object_keys (rows ! 0)
      in case bind_rows sf keys rows ([], []) of
           (vals, placeholders) \<Rightarrow>
             (let quotedKeys = js_join '', '' (map quote_ident keys);
                  conflictCols = js_join '', '' (map quote_ident (conflict_targets conflict));
                  updateClauses = js_join '', '' (update_clauses keys conflict)
              in (''INSERT INTO '' @ quote_ident (table_text this) @ '' ('' @ quotedKeys
                    @ '') VALUES '' @ js_join '', '' placeholders
                    @ '' ON CONFLICT ('' @ conflictCols @ '') DO UPDATE SET '' @ updateClauses
                    @ '' RETURNING *'',
                  vals)))"

definition execUpsert :: "'s host \<Rightarrow> QueryBuilder \<Rightarrow> 's world \<Rightarrow> (js_error + envelope) \<times> 's world" where
  "execUpsert h this w =
     (case insertData this of
        None \<Rightarrow> (Inl (TypeError ''Cannot read properties of null''), w)
      | Some rows \<Rightarrow>
          if length rows = 0 then (Inr \<lparr>data = JNull, error = None, count = JUndefined\<rparr>, w)
          else
            (case upsertConflict this of
               None \<Rightarrow> (Inl (TypeError ''Cannot read properties of null''), w)
             | Some conflict \<Rightarrow>
                 (case run_query h (upsert_stmt (JSON_stringify h) this rows conflict) w of
                    (Inl e, w1) \<Rightarrow> (Inl e, w1)
                  | (Inr result_rows, w1) \<Rightarrow>
                      (Inr \<lparr>data = rows_data this result_rows, error = None,
                            count = JUndefined\<rparr>, w1))))"

subsection \<open>The dispatcher and the thenable\<close>

text \<open>\<^verbatim>\<open>_execute\<close> is an \<^verbatim>\<open>async\<close> function whose whole body is one \<^verbatim>\<open>try\<close>: the promise of an
  \<^verbatim>\<open>async\<close> function is rejected by what its body throws and resolved by what it returns.\<close>

definition try_catch ::
  "(js_error + 'a) \<times> 'w \<Rightarrow> (js_error \<Rightarrow> 'w \<Rightarrow> (js_error + 'a) \<times> 'w) \<Rightarrow> (js_error + 'a) \<times> 'w" where
  "try_catch body handler =
     (case body of (Inl err, w) \<Rightarrow> handler err w | (Inr v, w) \<Rightarrow> (Inr v, w))"

definition async_result :: "(js_error + 'a) \<times> 'w \<Rightarrow> 'a promise \<times> 'w" where
  "async_result body =
     (case body of (Inl err, w) \<Rightarrow> (Rejected err, w) | (Inr v, w) \<Rightarrow> (Resolved v, w))"

definition execute :: "'s host \<Rightarrow> QueryBuilder \<Rightarrow> 's world \<Rightarrow> envelope promise \<times> 's world" where
  "execute h this w =
     async_result
       (try_catch
          (if operation this = Some Select then execSelect h this w
           else if operation this = Some Insert then execInsert h this w
           else if operation this = Some Update then execUpdate h this w
           else if operation this = Some Upsert then execUpsert h this w
           else (Inr \<lparr>data = JNull, error = Some (Error ''No operation specified''),
                      count = JUndefined\<rparr>, w))
          (\<lambda>err w'. (Inr \<lparr>data = JNull, error = Some err, count = JNull\<rparr>, w')))"

text \<open>\<^verbatim>\<open>then(resolve, reject)\<close> and \<^verbatim>\<open>catch(fn)\<close> hand the promise of \<^verbatim>\<open>_execute\<close> to the
  caller's callbacks: the result is what the callback that runs returns, and \<^verbatim>\<open>catch\<close>
  passes a resolved envelope through.\<close>

definition then_q ::
  "'s host \<Rightarrow> QueryBuilder \<Rightarrow> (envelope \<Rightarrow> 'b) \<Rightarrow> (js_error \<Rightarrow> 'b) \<Rightarrow> 's world \<Rightarrow> 'b \<times> 's world" where
  "then_q h this resolve reject w =
     (case execute h this w of
        (Resolved env, w') \<Rightarrow> (resolve env, w')
      | (Rejected err, w') \<Rightarrow> (reject err, w'))"

definition catch_q ::
  "'s host \<Rightarrow> QueryBuilder \<Rightarrow> (js_error \<Rightarrow> 'b) \<Rightarrow> 's world \<Rightarrow> (envelope + 'b) \<times> 's world" where
  "catch_q h this fn w =
     (case execute h this w of
        (Resolved env, w') \<Rightarrow> (Inl env, w')
      | (Rejected err, w') \<Rightarrow> (Inr (fn err), w'))"


subsection \<open>Test doubles\<close>

text \<open>A connector that answers every statement with the same rows, and one that fails on
  every statement with the same driver error. Their \<^verbatim>\<open>JSON.stringify\<close> and \<^verbatim>\<open>parseInt\<close>
  are placeholders.\<close>

definition fixed_pool :: "row list \<Rightarrow> unit host" where
  "fixed_pool rows =
     \<lparr>pool_query = (\<lambda>st s. (Inr rows, s)), JSON_stringify = (\<lambda>v. ''[json]''),
      parseInt = (\<lambda>v. v)\<rparr>"

definition failing_pool :: "string \<Rightarrow> unit host" where
  "failing_pool msg =
     \<lparr>pool_query = (\<lambda>st s. (Inl (DriverError msg), s)), JSON_stringify = (\<lambda>v. ''[json]''),
      parseInt = (\<lambda>v. v)\<rparr>"

definition fresh_world :: "unit world" where
  "fresh_world = \<lparr>db = (), issued = []\<rparr>"

section \<open>What the specification says of a chain\<close>

text \<open>
  The definitions of this section follow the words of the specification, not the code;
  the theorems compare them with the builder.

  A filter call binds a value when its fragment refers to a positional parameter. The
  fragment the table of filter methods gives for such a call, with \<open>n\<close> the number of its
  placeholder, and the value it binds.
\<close>

fun binds_value :: "call \<Rightarrow> bool" where
  "binds_value (CEq c v) = True"
| "binds_value (CNeq c v) = True"
| "binds_value (CGt c v) = True"
| "binds_value (CGte c v) = True"
| "binds_value (CLt c v) = True"
| "binds_value (CLte c v) = True"
| "binds_value (CIs c v) = (v \<noteq> JNull)"
| "binds_value (CNot c opr v) = (opr = ''eq'')"
| "binds_value other = False"

fun expected_fragment :: "call \<Rightarrow> nat \<Rightarrow> string" where
  "expected_fragment (CEq c v) n = pgCol c @ '' = '' @ placeholder n"
| "expected_fragment (CNeq c v) n = pgCol c @ '' != '' @ placeholder n"
| "expected_fragment (CGt c v) n = pgCol c @ '' > '' @ placeholder n"
| "expected_fragment (CGte c v) n = pgCol c @ '' >= '' @ placeholder n"
| "expected_fragment (CLt c v) n = pgCol c @ '' < '' @ placeholder n"
| "expected_fragment (CLte c v) n = pgCol c @ '' <= '' @ placeholder n"
| "expected_fragment (CIs c v) n = pgCol c @ '' IS '' @ placeholder n"
| "expected_fragment (CNot c opr v) n = pgCol c @ '' != '' @ placeholder n"
| "expected_fragment other n = []"

fun bound_value :: "call \<Rightarrow> jsval" where
  "bound_value (CEq c v) = v"
| "bound_value (CNeq c v) = v"
| "bound_value (CGt c v) = v"
| "bound_value (CGte c v) = v"
| "bound_value (CLt c v) = v"
| "bound_value (CLte c v) = v"
| "bound_value (CIs c v) = v"
| "bound_value (CNot c opr v) = v"
| "bound_value other = JUndefined"

text \<open>
  \<^verbatim>\<open>select()\<close> was called after a mutation entry point: read on the order of the calls
  alone, some \<^verbatim>\<open>select\<close> call of the chain comes after an \<^verbatim>\<open>insert\<close>, \<^verbatim>\<open>update\<close> or \<^verbatim>\<open>upsert\<close>
  call. The flag of \<open>select_follows\<close> says whether such a call has been seen.
\<close>

fun is_select_call :: "call \<Rightarrow> bool" where
  "is_select_call (CSelect c n) = True"
| "is_select_call other = False"

fun is_mutation_call :: "call \<Rightarrow> bool" where
  "is_mutation_call (CInsert d) = True"
| "is_mutation_call (CUpdate d) = True"
| "is_mutation_call (CUpsert d c) = True"
| "is_mutation_call other = False"

fun select_follows :: "bool \<Rightarrow> call list \<Rightarrow> bool" where
  "select_follows seen [] = False"
| "select_follows seen (c # cs) =
     ((seen \<and> is_select_call c) \<or> select_follows (seen \<or> is_mutation_call c) cs)"

definition select_after_mutation :: "call list \<Rightarrow> bool" where
  "select_after_mutation cs = select_follows False cs"

text \<open>The invariant of the data model: the limit is 1 whenever the single-row flag is set.\<close>

definition single_limit_inv :: "QueryBuilder \<Rightarrow> bool" where
  "single_limit_inv q = (if singleResult q then limitVal q = Some 1 else True)"

section \<open>Properties\<close>


subsection \<open>Text primitives\<close>

lemma show_nat_nonempty: "show_nat n \<noteq> []"
  by (subst show_nat.simps) simp

lemma last_show_nat: "last (show_nat n) = digit_char (n mod 10)"
  by (subst show_nat.simps) (simp add: show_nat_nonempty)

lemma digit_char_not_star: "digit_char (n mod 10) \<noteq> CHR ''*''"
proof -
  have "n mod 10 < 10" by simp
  then have "(48 + n mod 10) mod 256 = 48 + n mod 10" by simp
  then have "of_char (digit_char (n mod 10)) = (48 + n mod 10 :: nat)"
    by (simp add: digit_char_def)
  moreover have "of_char (CHR ''*'') = (42 :: nat)" by simp
  ultimately show ?thesis by auto
qed

lemma placeholder_last: "placeholder n \<noteq> [] \<and> last (placeholder n) \<noteq> CHR ''*''"
  by (simp add: placeholder_def show_nat_nonempty last_show_nat digit_char_not_star)

lemma js_join_eq_Nil: "js_join sep xs = [] \<Longrightarrow> xs = [] \<or> last xs = []"
  by (induction sep xs rule: js_join.induct) auto

lemma last_js_join: "xs \<noteq> [] \<Longrightarrow> last xs \<noteq> [] \<Longrightarrow> last (js_join sep xs) = last (last xs)"
proof (induction sep xs rule: js_join.induct)
  case (3 sep x y ys)
  have "js_join sep (y # ys) \<noteq> []"
    using js_join_eq_Nil [of sep "y # ys"] "3.prems" by auto
  then show ?case using 3 by simp
qed simp_all

lemma split_from_none:
  "\<not> js_includes sep s \<Longrightarrow> split_from sep acc s = [rev acc @ s]"
proof (induction s arbitrary: acc)
  case Nil
  then show ?case by (simp add: split_from.simps)
next
  case (Cons c cs)
  then show ?case by (subst split_from.simps) simp
qed

lemma includes_arrow: "js_includes ''->'' (base @ ''->'' @ rest)"
  by (induction base) simp_all

lemma split_from_arrow:
  "\<not> js_includes ''->'' base \<Longrightarrow>
   split_from ''->'' acc (base @ ''->'' @ rest) = (rev acc @ base) # split_from ''->'' [] rest"
proof (induction base arbitrary: acc)
  case Nil
  then show ?case by (subst split_from.simps) simp
next
  case (Cons c cs)
  then have "\<not> prefix ''->'' (c # cs)" and nin: "\<not> js_includes ''->'' cs" by simp_all
  then have "\<not> prefix ''->'' (c # cs @ ''->'' @ rest)"
    by (cases cs) (auto simp: prefix_def)
  then show ?case using Cons.IH [OF nin]
    by (subst split_from.simps) simp
qed

lemma split_from_hd_nonempty: "split_from sep acc s \<noteq> []"
  by (induction sep acc s rule: split_from.induct) (subst split_from.simps, simp)

lemma js_split_arrow_parts:
  assumes "\<not> js_includes ''->'' base"
  shows "js_split ''->'' (base @ ''->'' @ rest) ! 0 = base"
    and "js_split ''->'' (base @ ''->'' @ rest) ! 1 = hd (js_split ''->'' rest)"
  using split_from_arrow [OF assms, of "[]" rest] split_from_hd_nonempty [of "''->''" "[]" rest]
  by (simp_all add: js_split_def hd_conv_nth)

lemma includes_arrow_decompose:
  "js_includes ''->'' col \<Longrightarrow>
   \<exists>base rest. col = base @ ''->'' @ rest \<and> \<not> js_includes ''->'' base"
proof (induction col)
  case Nil
  then show ?case by simp
next
  case (Cons c cs)
  show ?case
  proof (cases "prefix ''->'' (c # cs)")
    case True
    then obtain rest where "c # cs = [] @ ''->'' @ rest" by (auto simp: prefix_def)
    moreover have "\<not> js_includes ''->'' []" by simp
    ultimately show ?thesis by blast
  next
    case False
    with Cons.prems have "js_includes ''->'' cs" by auto
    from Cons.IH [OF this] obtain base rest
      where cs: "cs = base @ ''->'' @ rest" and nb: "\<not> js_includes ''->'' base" by blast
    have "\<not> prefix ''->'' (c # base)"
      using False cs by (cases base) (auto simp: prefix_def)
    with nb have "\<not> js_includes ''->'' (c # base)" by simp
    moreover have "c # cs = (c # base) @ ''->'' @ rest" using cs by simp
    ultimately show ?thesis by blast
  qed
qed

lemma suffix_own: "suffix x (s @ x)"
  by (simp add: suffix_def)

lemma not_suffix_star:
  "s \<noteq> [] \<Longrightarrow> last s \<noteq> CHR ''*'' \<Longrightarrow> \<not> suffix '' RETURNING *'' s"
  by (auto simp: suffix_def)

subsection \<open>Column references\<close>

text \<open>
  Claim C6. A column name that does not contain \<^verbatim>\<open>->\<close> is wrapped in double quotes. A
  column name that contains it is rewritten to \<^verbatim>\<open>base->>'key'\<close>, where \<open>base\<close> is the text
  before the first separator and \<open>key\<close> the text between it and the next separator (all
  that follows, when there is no other separator); every column name that contains the
  separator splits in this way. Every filter method that adds a fragment, and \<^verbatim>\<open>order\<close>,
  puts the resolved column reference in front of its operator.
\<close>

theorem pgCol_resolution:
  "(\<not> js_includes ''->'' col \<longrightarrow> pgCol col = quote_ident col)
   \<and> (\<not> js_includes ''->'' base \<longrightarrow>
        pgCol (base @ ''->'' @ rest)
          = base @ ''->>'' @ [CHR 0x27] @ hd (js_split ''->'' rest) @ [CHR 0x27])
   \<and> (\<not> js_includes ''->'' rest \<longrightarrow> hd (js_split ''->'' rest) = rest)
   \<and> (js_includes ''->'' col \<longrightarrow>
        (\<exists>b r. col = b @ ''->'' @ r \<and> \<not> js_includes ''->'' b
           \<and> pgCol col = b @ ''->>'' @ [CHR 0x27] @ hd (js_split ''->'' r) @ [CHR 0x27]))
   \<and> wheres (eq col v q) = wheres q @ [pgCol col @ '' = '' @ placeholder (Suc (length (params q)))]
   \<and> wheres (neq col v q) = wheres q @ [pgCol col @ '' != '' @ placeholder (Suc (length (params q)))]
   \<and> wheres (gt col v q) = wheres q @ [pgCol col @ '' > '' @ placeholder (Suc (length (params q)))]
   \<and> wheres (gte col v q) = wheres q @ [pgCol col @ '' >= '' @ placeholder (Suc (length (params q)))]
   \<and> wheres (lt col v q) = wheres q @ [pgCol col @ '' < '' @ placeholder (Suc (length (params q)))]
   \<and> wheres (lte col v q) = wheres q @ [pgCol col @ '' <= '' @ placeholder (Suc (length (params q)))]
   \<and> wheres (is_q col JNull q) = wheres q @ [pgCol col @ '' IS NULL'']
   \<and> (v \<noteq> JNull \<longrightarrow>
        wheres (is_q col v q) = wheres q @ [pgCol col @ '' IS '' @ placeholder (Suc (length (params q)))])
   \<and> wheres (not_q col ''is'' JNull q) = wheres q @ [pgCol col @ '' IS NOT NULL'']
   \<and> wheres (not_q col ''eq'' v q) = wheres q @ [pgCol col @ '' != '' @ placeholder (Suc (length (params q)))]
   \<and> orderClauses (order_q col asc q)
        = orderClauses q @ [pgCol col @ (if asc = Some False then '' DESC'' else '' ASC'')]"
proof -
  have 1: "\<not> js_includes ''->'' col \<longrightarrow> pgCol col = quote_ident col"
    by (simp add: pgCol_def quote_ident_def)
  have 2: "\<not> js_includes ''->'' base \<longrightarrow>
        pgCol (base @ ''->'' @ rest)
          = base @ ''->>'' @ [CHR 0x27] @ hd (js_split ''->'' rest) @ [CHR 0x27]"
    using includes_arrow [of base rest] js_split_arrow_parts [of base rest]
    by (simp add: pgCol_def Let_def)
  have 3: "\<not> js_includes ''->'' rest \<longrightarrow> hd (js_split ''->'' rest) = rest"
    by (simp add: js_split_def split_from_none)
  have 4: "\<And>opr. wheres (push_filter opr col v q)
       = wheres q @ [pgCol col @ '' '' @ opr @ '' '' @ placeholder (Suc (length (params q)))]"
    by (simp add: push_filter_def Let_def)
  have 5: "js_includes ''->'' col \<longrightarrow>
        (\<exists>b r. col = b @ ''->'' @ r \<and> \<not> js_includes ''->'' b
           \<and> pgCol col = b @ ''->>'' @ [CHR 0x27] @ hd (js_split ''->'' r) @ [CHR 0x27])"
  proof
    assume "js_includes ''->'' col"
    from includes_arrow_decompose [OF this] obtain b r
      where c: "col = b @ ''->'' @ r" and nb: "\<not> js_includes ''->'' b" by blast
    have "pgCol col = b @ ''->>'' @ [CHR 0x27] @ hd (js_split ''->'' r) @ [CHR 0x27]"
      unfolding c using includes_arrow [of b r] js_split_arrow_parts [OF nb, of r]
      by (simp add: pgCol_def Let_def)
    with c nb show "\<exists>b r. col = b @ ''->'' @ r \<and> \<not> js_includes ''->'' b
           \<and> pgCol col = b @ ''->>'' @ [CHR 0x27] @ hd (js_split ''->'' r) @ [CHR 0x27]"
      by blast
  qed
  have 6: "wheres (eq col v q) = wheres q @ [pgCol col @ '' = '' @ placeholder (Suc (length (params q)))]
   \<and> wheres (neq col v q) = wheres q @ [pgCol col @ '' != '' @ placeholder (Suc (length (params q)))]
   \<and> wheres (gt col v q) = wheres q @ [pgCol col @ '' > '' @ placeholder (Suc (length (params q)))]
   \<and> wheres (gte col v q) = wheres q @ [pgCol col @ '' >= '' @ placeholder (Suc (length (params q)))]
   \<and> wheres (lt col v q) = wheres q @ [pgCol col @ '' < '' @ placeholder (Suc (length (params q)))]
   \<and> wheres (lte col v q) = wheres q @ [pgCol col @ '' <= '' @ placeholder (Suc (length (params q)))]
   \<and> wheres (is_q col JNull q) = wheres q @ [pgCol col @ '' IS NULL'']
   \<and> (v \<noteq> JNull \<longrightarrow>
        wheres (is_q col v q) = wheres q @ [pgCol col @ '' IS '' @ placeholder (Suc (length (params q)))])
   \<and> wheres (not_q col ''is'' JNull q) = wheres q @ [pgCol col @ '' IS NOT NULL'']
   \<and> wheres (not_q col ''eq'' v q) = wheres q @ [pgCol col @ '' != '' @ placeholder (Suc (length (params q)))]
   \<and> orderClauses (order_q col asc q)
        = orderClauses q @ [pgCol col @ (if asc = Some False then '' DESC'' else '' ASC'')]"
    by (simp add: 4 eq_def neq_def gt_def gte_def lt_def lte_def is_q_def not_q_def order_q_def Let_def)
  show ?thesis
    by (rule conjI [OF 1 conjI [OF 2 conjI [OF 3 conjI [OF 5 6]]]])
qed

theorem pgCol_resolution_witness:
  "pgCol ''name'' = quote_ident ''name''
   \<and> pgCol ''metadata->key'' = ''metadata->>'' @ [CHR 0x27] @ ''key'' @ [CHR 0x27]
   \<and> wheres (is_q ''metadata->key'' (JBool True) new_builder)
        = [''metadata->>'' @ [CHR 0x27] @ ''key'' @ [CHR 0x27] @ '' IS $1'']"
proof -
  have a: "\<not> js_includes ''->'' ''name''" by code_simp
  have b: "\<not> js_includes ''->'' ''metadata''" by code_simp
  have c: "\<not> js_includes ''->'' ''key''" by code_simp
  have d: "JBool True \<noteq> JNull" by simp
  have e: "placeholder (Suc (length (params new_builder))) = ''$1''" by code_simp
  have f: "wheres new_builder = []" by (simp add: new_builder_def)
  show ?thesis
    using pgCol_resolution [of "''name''" "''metadata''" "''key''" "JBool True" new_builder None] a b c d e f
      pgCol_resolution [of "''metadata->key''" "''metadata''" "''key''" "JBool True" new_builder None]
    by simp
qed

subsection \<open>Statements sent to the connector\<close>

lemma run_query_issued: "issued (snd (run_query h st w)) = issued w @ [st]"
  by (simp add: run_query_def split: prod.splits)

lemma execute_world:
  "snd (execute h this w)
     = snd (if operation this = Some Select then execSelect h this w
           else if operation this = Some Insert then execInsert h this w
           else if operation this = Some Update then execUpdate h this w
           else if operation this = Some Upsert then execUpsert h this w
           else (Inr \<lparr>data = JNull, error = Some (Error ''No operation specified''),
                      count = JUndefined\<rparr>, w))"
  by (simp add: execute_def try_catch_def async_result_def split: prod.splits sum.splits)

lemma fixed_pool_query: "pool_query (fixed_pool R) st s = (Inr R, s)"
  by (simp add: fixed_pool_def)

lemma execUpsert_issued:
  assumes "insertData this = Some rows" "rows \<noteq> []" "upsertConflict this = Some conflict"
  shows "issued (snd (execUpsert h this w))
           = issued w @ [upsert_stmt (JSON_stringify h) this rows conflict]"
proof -
  let ?st = "upsert_stmt (JSON_stringify h) this rows conflict"
  obtain r w1 where rq: "run_query h ?st w = (r, w1)" by (cases "run_query h ?st w")
  then have "issued w1 = issued w @ [?st]" using run_query_issued [of h ?st w] by simp
  then show ?thesis using assms rq
    by (cases r) (simp_all add: execUpsert_def)
qed

lemma execUpdate_issued:
  assumes "updateData this = Some d"
  shows "issued (snd (execUpdate h this w)) = issued w @ [update_stmt (JSON_stringify h) this d]"
proof -
  let ?st = "update_stmt (JSON_stringify h) this d"
  obtain r w1 where rq: "run_query h ?st w = (r, w1)" by (cases "run_query h ?st w")
  then have "issued w1 = issued w @ [?st]" using run_query_issued [of h ?st w] by simp
  then show ?thesis using assms rq
    by (cases r) (simp_all add: execUpdate_def)
qed

lemma execInsert_issued:
  assumes "insertData this = Some rows" "rows \<noteq> []"
  shows "issued (snd (execInsert h this w)) = issued w @ [insert_stmt (JSON_stringify h) this rows]"
proof -
  let ?st = "insert_stmt (JSON_stringify h) this rows"
  obtain r w1 where rq: "run_query h ?st w = (r, w1)" by (cases "run_query h ?st w")
  then have "issued w1 = issued w @ [?st]" using run_query_issued [of h ?st w] by simp
  then show ?thesis using assms rq
    by (cases r) (simp_all add: execInsert_def)
qed

lemma execUpsert_success:
  assumes "insertData q = Some rows" "rows \<noteq> []" "upsertConflict q = Some conflict"
    and "pool_query h (upsert_stmt (JSON_stringify h) q rows conflict) (db w) = (Inr rs, s')"
  shows "fst (execUpsert h q w) = Inr \<lparr>data = rows_data q rs, error = None, count = JUndefined\<rparr>"
  using assms by (simp add: execUpsert_def run_query_def)

text \<open>A select whose statement the connector answers, and whose count statement (when an
  exact count was asked for) it answers with a row: the envelope and the statements sent.\<close>

lemma execSelect_result:
  assumes "pool_query h (select_sql this, params this) (db w) = (Inr rs, s1)"
    and "countExact this \<longrightarrow> pool_query h (count_sql this, params this) s1 = (Inr (c # cs), s2)"
  shows "execSelect h this w
     = (Inr \<lparr>data = rows_data this (reshape_rows this rs),
             error = (if singleResult this \<and> rs = []
                      then Some (PlainMessage ''Row not found'') else None),
             count = (if countExact this then parseInt h (obj_get c ''count'') else JNull)\<rparr>,
        \<lparr>db = (if countExact this then s2 else s1),
         issued = issued w @ (select_sql this, params this)
                    # (if countExact this then [(count_sql this, params this)] else [])\<rparr>)"
proof -
  have e: "(reshape_rows this rs = []) = (rs = [])"
    by (simp add: reshape_rows_def split: list.splits)
  have rq: "run_query h (select_sql this, params this) w
              = (Inr rs, \<lparr>db = s1, issued = issued w @ [(select_sql this, params this)]\<rparr>)"
    using assms(1) by (simp add: run_query_def)
  show ?thesis
  proof (cases "countExact this")
    case False
    then show ?thesis unfolding execSelect_def rq by (simp add: e Let_def)
  next
    case True
    with assms(2) have "pool_query h (count_sql this, params this) s1 = (Inr (c # cs), s2)" by simp
    then have rc: "run_query h (count_sql this, params this)
                     \<lparr>db = s1, issued = issued w @ [(select_sql this, params this)]\<rparr>
                 = (Inr (c # cs),
                    \<lparr>db = s2, issued = issued w @ [(select_sql this, params this),
                                                     (count_sql this, params this)]\<rparr>)"
      by (simp add: run_query_def)
    show ?thesis unfolding execSelect_def rq using True by (simp add: e rc Let_def)
  qed
qed

lemma execute_case:
  "execute h this w
     = (case (if operation this = Some Select then execSelect h this w
              else if operation this = Some Insert then execInsert h this w
              else if operation this = Some Update then execUpdate h this w
              else if operation this = Some Upsert then execUpsert h this w
              else (Inr \<lparr>data = JNull, error = Some (Error ''No operation specified''),
                         count = JUndefined\<rparr>, w)) of
          (Inl err, w') \<Rightarrow> (Resolved \<lparr>data = JNull, error = Some err, count = JNull\<rparr>, w')
        | (Inr env, w') \<Rightarrow> (Resolved env, w'))"
  by (simp add: execute_def try_catch_def async_result_def split: prod.splits sum.splits)

text \<open>Calls that are not mutation entry points leave what a mutation entry point recorded.\<close>

lemma apply_call_keeps_mutation:
  assumes "\<not> is_mutation_call c" and "is_mutation (operation q)"
  shows "operation (apply_call c q) = operation q \<and> insertData (apply_call c q) = insertData q
         \<and> updateData (apply_call c q) = updateData q
         \<and> upsertConflict (apply_call c q) = upsertConflict q
         \<and> table (apply_call c q) = table q"
  using assms
  by (cases c)
     (auto simp: select_q_def eq_def neq_def gt_def gte_def lt_def lte_def is_q_def not_q_def
        push_filter_def order_q_def limit_def single_def is_mutation_def Let_def)

lemma run_chain_keeps_mutation:
  assumes "\<forall>c\<in>set post. \<not> is_mutation_call c" and "is_mutation (operation q)"
  shows "operation (run_chain post q) = operation q \<and> insertData (run_chain post q) = insertData q
         \<and> updateData (run_chain post q) = updateData q
         \<and> upsertConflict (run_chain post q) = upsertConflict q
         \<and> table (run_chain post q) = table q"
  using assms
proof (induction post arbitrary: q)
  case Nil
  then show ?case by simp
next
  case (Cons c post)
  have k: "operation (apply_call c q) = operation q \<and> insertData (apply_call c q) = insertData q
         \<and> updateData (apply_call c q) = updateData q
         \<and> upsertConflict (apply_call c q) = upsertConflict q
         \<and> table (apply_call c q) = table q"
    using Cons.prems by (intro apply_call_keeps_mutation) simp_all
  then have "is_mutation (operation (apply_call c q))" using Cons.prems(2) by simp
  with Cons.IH [of "apply_call c q"] Cons.prems(1) k show ?case by simp
qed

subsection \<open>Empty row lists\<close>

text \<open>
  Claim C10. When the operation is insert or upsert and the row list is empty, the
  execution resolves to data \<^verbatim>\<open>null\<close> and error \<^verbatim>\<open>null\<close> (an envelope with no count), and
  the world is unchanged: no statement is sent to the connector.
\<close>

theorem empty_rows_issue_nothing:
  assumes "operation this = Some Insert \<or> operation this = Some Upsert"
    and "insertData this = Some []"
  shows "execute h this w = (Resolved \<lparr>data = JNull, error = None, count = JUndefined\<rparr>, w)
         \<and> issued (snd (execute h this w)) = issued w"
  using assms
  by (auto simp: execute_def execInsert_def execUpsert_def try_catch_def async_result_def)

theorem empty_rows_issue_nothing_witness:
  "execute (failing_pool ''down'') (insert_q (ManyRows []) (from_q ''users'' new_builder)) fresh_world
     = (Resolved \<lparr>data = JNull, error = None, count = JUndefined\<rparr>, fresh_world)
   \<and> execute (failing_pool ''down'') (select_q None None (upsert (ManyRows []) None (from_q ''users'' new_builder))) fresh_world
     = (Resolved \<lparr>data = JNull, error = None, count = JUndefined\<rparr>, fresh_world)"
proof -
  let ?a = "insert_q (ManyRows []) (from_q ''users'' new_builder)"
  let ?b = "select_q None None (upsert (ManyRows []) None (from_q ''users'' new_builder))"
  have a: "operation ?a = Some Insert \<or> operation ?a = Some Upsert" "insertData ?a = Some []"
    by (simp_all add: insert_q_def)
  have b: "operation ?b = Some Insert \<or> operation ?b = Some Upsert" "insertData ?b = Some []"
    by (simp_all add: select_q_def upsert_def)
  show ?thesis
    using empty_rows_issue_nothing [OF a, of "failing_pool ''down''" fresh_world]
      empty_rows_issue_nothing [OF b, of "failing_pool ''down''" fresh_world]
    by simp
qed

subsection \<open>Bound values\<close>

lemma bind_keys_closed:
  "bind_keys sf r keys (vals, rp)
     = (vals @ map (\<lambda>k. pgVal sf (obj_get r k)) keys,
        rp @ map placeholder [Suc (length vals)..<Suc (length vals + length keys)])"
proof (induction keys arbitrary: vals rp)
  case Nil
  then show ?case by simp
next
  case (Cons k keys)
  show ?case
    by (simp add: Let_def Cons.IH upt_conv_Cons del: upt_Suc)
qed

lemma bind_rows_fst:
  "fst (bind_rows sf keys rows (vals, phs))
     = vals @ concat (map (\<lambda>r. map (\<lambda>k. pgVal sf (obj_get r k)) keys) rows)"
  by (induction rows arbitrary: vals phs) (simp_all add: bind_keys_closed)

lemma bind_sets_closed:
  "bind_sets sf d keys (ps, sc)
     = (ps @ map (\<lambda>k. pgVal sf (obj_get d k)) keys,
        sc @ map (\<lambda>(n, k). quote_ident k @ '' = '' @ placeholder n)
               (enumerate (Suc (length ps)) keys))"
  by (induction keys arbitrary: ps sc) (simp_all add: Let_def)

lemma insert_stmt_params:
  "snd (insert_stmt sf this rows)
     = concat (map (\<lambda>r. map (\<lambda>k. pgVal sf (obj_get r k)) (object_keys (rows ! 0))) rows)"
  using bind_rows_fst [of sf "object_keys (rows ! 0)" rows "[]" "[]"]
  by (cases "bind_rows sf (object_keys (rows ! 0)) rows ([], [])") (simp add: insert_stmt_def Let_def)

lemma upsert_stmt_params:
  "snd (upsert_stmt sf this rows conflict)
     = concat (map (\<lambda>r. map (\<lambda>k. pgVal sf (obj_get r k)) (object_keys (rows ! 0))) rows)"
  using bind_rows_fst [of sf "object_keys (rows ! 0)" rows "[]" "[]"]
  by (cases "bind_rows sf (object_keys (rows ! 0)) rows ([], [])") (simp add: upsert_stmt_def Let_def)

lemma update_stmt_params:
  "snd (update_stmt sf this d) = params this @ map (\<lambda>k. pgVal sf (obj_get d k)) (object_keys d)"
  by (simp add: update_stmt_def bind_sets_closed)

lemma executed_insert_params:
  assumes "\<forall>c\<in>set post. \<not> is_mutation_call c" and "as_rows d \<noteq> []"
  shows "\<exists>sql. issued (snd (execute h (run_chain post (insert_q d q)) w))
           = issued w @ [(sql, concat (map (\<lambda>r. map (\<lambda>k. pgVal (JSON_stringify h) (obj_get r k))
                                             (object_keys (hd (as_rows d)))) (as_rows d)))]"
proof -
  let ?qb = "run_chain post (insert_q d q)"
  have m: "is_mutation (operation (insert_q d q))" by (simp add: insert_q_def is_mutation_def)
  from run_chain_keeps_mutation [OF assms(1) m]
  have f: "operation ?qb = Some Insert" "insertData ?qb = Some (as_rows d)"
    by (simp_all add: insert_q_def)
  have "issued (snd (execute h ?qb w))
          = issued w @ [insert_stmt (JSON_stringify h) ?qb (as_rows d)]"
    by (simp add: execute_world f execInsert_issued [OF f(2) assms(2)])
  moreover have "insert_stmt (JSON_stringify h) ?qb (as_rows d)
          = (fst (insert_stmt (JSON_stringify h) ?qb (as_rows d)),
             concat (map (\<lambda>r. map (\<lambda>k. pgVal (JSON_stringify h) (obj_get r k))
                                (object_keys (hd (as_rows d)))) (as_rows d)))"
    using insert_stmt_params [of "JSON_stringify h" ?qb "as_rows d"] assms(2)
    by (simp add: hd_conv_nth prod_eq_iff)
  ultimately show ?thesis by metis
qed

lemma executed_upsert_params:
  assumes "\<forall>c\<in>set post. \<not> is_mutation_call c" and "as_rows d \<noteq> []"
  shows "\<exists>sql. issued (snd (execute h (run_chain post (upsert d oc q)) w))
           = issued w @ [(sql, concat (map (\<lambda>r. map (\<lambda>k. pgVal (JSON_stringify h) (obj_get r k))
                                             (object_keys (hd (as_rows d)))) (as_rows d)))]"
proof -
  let ?qb = "run_chain post (upsert d oc q)"
  have m: "is_mutation (operation (upsert d oc q))" by (simp add: upsert_def is_mutation_def)
  obtain conflict where c: "upsertConflict (upsert d oc q) = Some conflict"
    by (simp add: upsert_def)
  from run_chain_keeps_mutation [OF assms(1) m]
  have f: "operation ?qb = Some Upsert" "insertData ?qb = Some (as_rows d)"
    "upsertConflict ?qb = Some conflict"
    by (simp_all add: upsert_def c [symmetric])
  have "issued (snd (execute h ?qb w))
          = issued w @ [upsert_stmt (JSON_stringify h) ?qb (as_rows d) conflict]"
    by (simp add: execute_world f execUpsert_issued [OF f(2) assms(2) f(3)])
  moreover have "upsert_stmt (JSON_stringify h) ?qb (as_rows d) conflict
          = (fst (upsert_stmt (JSON_stringify h) ?qb (as_rows d) conflict),
             concat (map (\<lambda>r. map (\<lambda>k. pgVal (JSON_stringify h) (obj_get r k))
                                (object_keys (hd (as_rows d)))) (as_rows d)))"
    using upsert_stmt_params [of "JSON_stringify h" ?qb "as_rows d" conflict] assms(2)
    by (simp add: hd_conv_nth prod_eq_iff)
  ultimately show ?thesis by metis
qed

lemma executed_update_params:
  assumes "\<forall>c\<in>set post. \<not> is_mutation_call c"
  shows "\<exists>sql. issued (snd (execute h (run_chain post (update_q u q)) w))
           = issued w @ [(sql, params (run_chain post (update_q u q))
                                @ map (\<lambda>k. pgVal (JSON_stringify h) (obj_get u k)) (object_keys u))]"
proof -
  let ?qb = "run_chain post (update_q u q)"
  have m: "is_mutation (operation (update_q u q))" by (simp add: update_q_def is_mutation_def)
  from run_chain_keeps_mutation [OF assms(1) m]
  have f: "operation ?qb = Some Update" "updateData ?qb = Some u"
    by (simp_all add: update_q_def)
  have "issued (snd (execute h ?qb w)) = issued w @ [update_stmt (JSON_stringify h) ?qb u]"
    by (simp add: execute_world f execUpdate_issued [OF f(2)])
  moreover have "update_stmt (JSON_stringify h) ?qb u
          = (fst (update_stmt (JSON_stringify h) ?qb u),
             params ?qb @ map (\<lambda>k. pgVal (JSON_stringify h) (obj_get u k)) (object_keys u))"
    using update_stmt_params [of "JSON_stringify h" ?qb u] by (simp add: prod_eq_iff)
  ultimately show ?thesis by metis
qed

text \<open>
  Claim C8. \<^verbatim>\<open>_pgVal\<close> returns \<^verbatim>\<open>null\<close> and \<^verbatim>\<open>undefined\<close> as they are, the text \<^verbatim>\<open>'{}'\<close> for
  an empty array, a non-empty array itself when its first element is not an object, its
  JSON text when the first element is an object, the JSON text of any other object, and
  a scalar (or a function) unchanged. The statement that the execution of an insert or
  an upsert chain sends binds these values of \<^verbatim>\<open>row[key]\<close>, for every key of the first row,
  read in every row in turn; the statement of an update chain binds the filter
  parameters followed by these values of \<^verbatim>\<open>values[key]\<close> for every key. The calls \<open>post\<close>
  are those made after the mutation entry point.
\<close>

theorem pgVal_coercion:
  "pgVal sf JNull = JNull
   \<and> pgVal sf JUndefined = JUndefined
   \<and> pgVal sf (JArr []) = JStr ''{}''
   \<and> (\<not> (typeof x = ''object'' \<and> x \<noteq> JNull) \<longrightarrow> pgVal sf (JArr (x # xs)) = JArr (x # xs))
   \<and> (typeof x = ''object'' \<and> x \<noteq> JNull \<longrightarrow> pgVal sf (JArr (x # xs)) = JStr (sf (JArr (x # xs))))
   \<and> pgVal sf (JObj kvs) = JStr (sf (JObj kvs))
   \<and> pgVal sf (JBool b) = JBool b
   \<and> pgVal sf (JNum n) = JNum n
   \<and> pgVal sf (JStr s) = JStr s
   \<and> pgVal sf (JFun f) = JFun f
   \<and> ((\<forall>c\<in>set post. \<not> is_mutation_call c) \<and> as_rows d \<noteq> [] \<longrightarrow>
        (\<exists>sql. issued (snd (execute h (run_chain post (insert_q d q)) w))
           = issued w @ [(sql, concat (map (\<lambda>r. map (\<lambda>k. pgVal (JSON_stringify h) (obj_get r k))
                                             (object_keys (hd (as_rows d)))) (as_rows d)))]))
   \<and> ((\<forall>c\<in>set post. \<not> is_mutation_call c) \<and> as_rows d \<noteq> [] \<longrightarrow>
        (\<exists>sql. issued (snd (execute h (run_chain post (upsert d oc q)) w))
           = issued w @ [(sql, concat (map (\<lambda>r. map (\<lambda>k. pgVal (JSON_stringify h) (obj_get r k))
                                             (object_keys (hd (as_rows d)))) (as_rows d)))]))
   \<and> ((\<forall>c\<in>set post. \<not> is_mutation_call c) \<longrightarrow>
        (\<exists>sql. issued (snd (execute h (run_chain post (update_q u q)) w))
           = issued w @ [(sql, params (run_chain post (update_q u q))
                                @ map (\<lambda>k. pgVal (JSON_stringify h) (obj_get u k)) (object_keys u))]))"
proof -
  have cases: "pgVal sf JNull = JNull
   \<and> pgVal sf JUndefined = JUndefined
   \<and> pgVal sf (JArr []) = JStr ''{}''
   \<and> (\<not> (typeof x = ''object'' \<and> x \<noteq> JNull) \<longrightarrow> pgVal sf (JArr (x # xs)) = JArr (x # xs))
   \<and> (typeof x = ''object'' \<and> x \<noteq> JNull \<longrightarrow> pgVal sf (JArr (x # xs)) = JStr (sf (JArr (x # xs))))
   \<and> pgVal sf (JObj kvs) = JStr (sf (JObj kvs))
   \<and> pgVal sf (JBool b) = JBool b
   \<and> pgVal sf (JNum n) = JNum n
   \<and> pgVal sf (JStr s) = JStr s
   \<and> pgVal sf (JFun f) = JFun f"
    by (simp add: pgVal_def)
  show ?thesis
    using cases executed_insert_params [of post d h q w] executed_upsert_params [of post d h oc q w]
      executed_update_params [of post h u q w]
    by simp
qed


theorem pgVal_coercion_witness:
  "pgVal (\<lambda>v. ''[json]'') (JArr [JNum 1, JObj []]) = JArr [JNum 1, JObj []]
   \<and> pgVal (\<lambda>v. ''[json]'') (JArr [JObj [], JNum 1]) = JStr ''[json]''
   \<and> map snd (issued (snd (execute (fixed_pool [])
         (run_chain [CSelect None None]
            (insert_q (ManyRows [[(''name'', JStr ''A''), (''tags'', JArr []), (''constructor'', JNum 1)],
                                 [(''name'', JStr ''B'')]])
               (from_q ''users'' new_builder)))
         fresh_world)))
       = [[JStr ''A'', JStr ''{}'', JNum 1, JStr ''B'', JUndefined, JFun ''Object'']]
   \<and> map snd (issued (snd (execute (fixed_pool [])
         (run_chain [CEq ''id'' (JNum 7)]
            (update_q [(''tags'', JArr []), (''meta'', JObj [(''a'', JNull)])]
               (from_q ''users'' new_builder)))
         fresh_world)))
       = [[JNum 7, JStr ''{}'', JStr ''[json]'']]"
proof -
  let ?d = "ManyRows [[(''name'', JStr ''A''), (''tags'', JArr []), (''constructor'', JNum 1)],
                      [(''name'', JStr ''B'')]]"
  let ?u = "[(''tags'', JArr []), (''meta'', JObj [(''a'', JNull)])]"
  let ?q0 = "from_q ''users'' new_builder"
  note A = pgVal_coercion [where sf = "\<lambda>v. ''[json]''" and x = "JNum 1" and xs = "[JObj []]"
      and kvs = "[]" and b = True and n = 0 and s = "[]" and f = "[]"
      and post = "[CSelect None None]" and d = ?d and h = "fixed_pool []" and q = ?q0
      and w = fresh_world and oc = None and u = ?u]
  note B = pgVal_coercion [where sf = "\<lambda>v. ''[json]''" and x = "JObj []" and xs = "[JNum 1]"
      and kvs = "[]" and b = True and n = 0 and s = "[]" and f = "[]"
      and post = "[CEq ''id'' (JNum 7)]" and d = ?d and h = "fixed_pool []" and q = ?q0
      and w = fresh_world and oc = None and u = ?u]
  have a: "\<not> (typeof (JNum 1) = ''object'' \<and> JNum 1 \<noteq> JNull)" by simp
  have b: "typeof (JObj []) = ''object'' \<and> JObj [] \<noteq> JNull" by simp
  have 1: "pgVal (\<lambda>v. ''[json]'') (JArr [JNum 1, JObj []]) = JArr [JNum 1, JObj []]"
    using A [THEN conjunct2, THEN conjunct2, THEN conjunct2, THEN conjunct1, THEN mp, OF a] .
  have 2: "pgVal (\<lambda>v. ''[json]'') (JArr [JObj [], JNum 1]) = JStr ''[json]''"
    using B [THEN conjunct2, THEN conjunct2, THEN conjunct2, THEN conjunct2, THEN conjunct1, THEN mp, OF b] .
  have w0: "issued fresh_world = []" by (simp add: fresh_world_def)
  have hi: "(\<forall>c\<in>set [CSelect None None]. \<not> is_mutation_call c) \<and> as_rows ?d \<noteq> []" by simp
  have hu: "\<forall>c\<in>set [CEq ''id'' (JNum 7)]. \<not> is_mutation_call c" by simp
  have ei: "concat (map (\<lambda>r. map (\<lambda>k. pgVal (JSON_stringify (fixed_pool [])) (obj_get r k))
                             (object_keys (hd (as_rows ?d)))) (as_rows ?d))
            = [JStr ''A'', JStr ''{}'', JNum 1, JStr ''B'', JUndefined, JFun ''Object'']"
    by code_simp
  have eu: "params (run_chain [CEq ''id'' (JNum 7)] (update_q ?u ?q0))
              @ map (\<lambda>k. pgVal (JSON_stringify (fixed_pool [])) (obj_get ?u k)) (object_keys ?u)
            = [JNum 7, JStr ''{}'', JStr ''[json]'']"
    by code_simp
  from A [THEN conjunct2, THEN conjunct2, THEN conjunct2, THEN conjunct2, THEN conjunct2, THEN conjunct2, THEN conjunct2, THEN conjunct2, THEN conjunct2, THEN conjunct2, THEN conjunct1, THEN mp, OF hi] obtain sql where
    "issued (snd (execute (fixed_pool []) (run_chain [CSelect None None] (insert_q ?d ?q0)) fresh_world))
       = issued fresh_world @ [(sql, concat (map (\<lambda>r. map (\<lambda>k. pgVal (JSON_stringify (fixed_pool [])) (obj_get r k))
                             (object_keys (hd (as_rows ?d)))) (as_rows ?d)))]"
    ..
  then have 3: "map snd (issued (snd (execute (fixed_pool [])
         (run_chain [CSelect None None] (insert_q ?d ?q0)) fresh_world)))
       = [[JStr ''A'', JStr ''{}'', JNum 1, JStr ''B'', JUndefined, JFun ''Object'']]"
    unfolding ei w0 by simp
  from B [THEN conjunct2, THEN conjunct2, THEN conjunct2, THEN conjunct2, THEN conjunct2, THEN conjunct2, THEN conjunct2, THEN conjunct2, THEN conjunct2, THEN conjunct2, THEN conjunct2, THEN conjunct2, THEN mp, OF hu] obtain sql' where
    "issued (snd (execute (fixed_pool []) (run_chain [CEq ''id'' (JNum 7)] (update_q ?u ?q0)) fresh_world))
       = issued fresh_world @ [(sql', params (run_chain [CEq ''id'' (JNum 7)] (update_q ?u ?q0))
              @ map (\<lambda>k. pgVal (JSON_stringify (fixed_pool [])) (obj_get ?u k)) (object_keys ?u))]"
    ..
  then have 4: "map snd (issued (snd (execute (fixed_pool [])
         (run_chain [CEq ''id'' (JNum 7)] (update_q ?u ?q0)) fresh_world)))
       = [[JNum 7, JStr ''{}'', JStr ''[json]'']]"
    unfolding eu w0 by simp
  show ?thesis
    by (intro conjI) (fact 1, fact 2, fact 3, fact 4)
qed

subsection \<open>Upsert: the conflict target is excluded\<close>

lemma assignment_inj:
  "quote_ident k @ '' = EXCLUDED.'' @ quote_ident k = quote_ident k' @ '' = EXCLUDED.'' @ quote_ident k'
   \<Longrightarrow> k = k'"
proof -
  assume e: "quote_ident k @ '' = EXCLUDED.'' @ quote_ident k = quote_ident k' @ '' = EXCLUDED.'' @ quote_ident k'"
  then have "length (quote_ident k @ '' = EXCLUDED.'' @ quote_ident k)
             = length (quote_ident k' @ '' = EXCLUDED.'' @ quote_ident k')" by simp
  then have "length (quote_ident k) = length (quote_ident k')"
    by (simp add: quote_ident_def)
  with e have "quote_ident k = quote_ident k'" by simp
  then show "k = k'" by (simp add: quote_ident_def)
qed

lemma upsert_stmt_text:
  "\<exists>head. fst (upsert_stmt sf this rows conflict)
      = head @ '' ON CONFLICT ('' @ js_join '', '' (map quote_ident (conflict_targets conflict))
          @ '') DO UPDATE SET '' @ js_join '', '' (update_clauses (object_keys (rows ! 0)) conflict)
          @ '' RETURNING *''"
proof (cases "bind_rows sf (object_keys (rows ! 0)) rows ([], [])")
  case (Pair vals placeholders)
  have "fst (upsert_stmt sf this rows conflict)
      = (''INSERT INTO '' @ quote_ident (table_text this) @ '' (''
           @ js_join '', '' (map quote_ident (object_keys (rows ! 0)))
           @ '') VALUES '' @ js_join '', '' placeholders)
          @ '' ON CONFLICT ('' @ js_join '', '' (map quote_ident (conflict_targets conflict))
          @ '') DO UPDATE SET '' @ js_join '', '' (update_clauses (object_keys (rows ! 0)) conflict)
          @ '' RETURNING *''"
    unfolding upsert_stmt_def Let_def Pair by simp
  then show ?thesis by - (rule exI, assumption)
qed

lemma executed_upsert_text:
  assumes "\<forall>x\<in>set post. \<not> is_mutation_call x" and "as_rows d \<noteq> []"
    and "upsertConflict (upsert d oc q) = Some conflict"
  shows "\<exists>head vals. issued (snd (execute h (run_chain post (upsert d oc q)) w))
      = issued w @ [(head @ '' ON CONFLICT (''
                       @ js_join '', '' (map quote_ident (conflict_targets conflict))
                       @ '') DO UPDATE SET ''
                       @ js_join '', '' (update_clauses (object_keys (hd (as_rows d))) conflict)
                       @ '' RETURNING *'', vals)]"
proof -
  let ?qb = "run_chain post (upsert d oc q)"
  have m: "is_mutation (operation (upsert d oc q))" by (simp add: upsert_def is_mutation_def)
  from run_chain_keeps_mutation [OF assms(1) m]
  have f: "operation ?qb = Some Upsert" "insertData ?qb = Some (as_rows d)"
    "upsertConflict ?qb = Some conflict"
    by (simp_all add: upsert_def assms(3) [symmetric])
  have i: "issued (snd (execute h ?qb w))
          = issued w @ [upsert_stmt (JSON_stringify h) ?qb (as_rows d) conflict]"
    by (simp add: execute_world f execUpsert_issued [OF f(2) assms(2) f(3)])
  have hd: "as_rows d ! 0 = hd (as_rows d)" using assms(2) by (simp add: hd_conv_nth)
  from upsert_stmt_text [of "JSON_stringify h" ?qb "as_rows d" conflict]
  obtain head where t: "fst (upsert_stmt (JSON_stringify h) ?qb (as_rows d) conflict)
      = head @ '' ON CONFLICT ('' @ js_join '', '' (map quote_ident (conflict_targets conflict))
          @ '') DO UPDATE SET ''
          @ js_join '', '' (update_clauses (object_keys (as_rows d ! 0)) conflict)
          @ '' RETURNING *''" ..
  have "upsert_stmt (JSON_stringify h) ?qb (as_rows d) conflict
          = (fst (upsert_stmt (JSON_stringify h) ?qb (as_rows d) conflict),
             snd (upsert_stmt (JSON_stringify h) ?qb (as_rows d) conflict))"
    by simp
  then have "issued (snd (execute h ?qb w))
      = issued w @ [(head @ '' ON CONFLICT (''
                       @ js_join '', '' (map quote_ident (conflict_targets conflict))
                       @ '') DO UPDATE SET ''
                       @ js_join '', '' (update_clauses (object_keys (hd (as_rows d))) conflict)
                       @ '' RETURNING *'',
                     snd (upsert_stmt (JSON_stringify h) ?qb (as_rows d) conflict))]"
    unfolding i t hd by (rule arg_cong [where f = "\<lambda>st. issued w @ [st]"])
  then show ?thesis by - (rule exI, rule exI, assumption)
qed

text \<open>
  Claim C4. \<^verbatim>\<open>upsert(rows, {onConflict: c})\<close> records \<open>c\<close> as the conflict list (the default
  \<^verbatim>\<open>'id'\<close> when \<open>c\<close> is missing or empty). The statement that the execution of an upsert
  chain with a non-empty row list sends has, after \<^verbatim>\<open>DO UPDATE SET\<close>, the assignments
  \<^verbatim>\<open>"k" = EXCLUDED."k"\<close> of exactly the keys \<open>k\<close> of the first row that are not in the
  conflict-target list (the comma-separated, trimmed \<open>c\<close>), joined by commas and followed
  by \<^verbatim>\<open>RETURNING *\<close>; no column of the conflict target gets an assignment. The calls
  \<open>post\<close> are those made after \<^verbatim>\<open>upsert\<close>.
\<close>

theorem upsert_conflict_exclusion:
  "set (update_clauses keys conflict)
     = (\<lambda>k. quote_ident k @ '' = EXCLUDED.'' @ quote_ident k)
         ` {k \<in> set keys. k \<notin> set (conflict_targets conflict)}
   \<and> (\<forall>k. k \<in> set (conflict_targets conflict) \<longrightarrow>
          quote_ident k @ '' = EXCLUDED.'' @ quote_ident k \<notin> set (update_clauses keys conflict))
   \<and> upsertConflict (upsert d (Some c) q) = Some (if c = [] then ''id'' else c)
   \<and> upsertConflict (upsert d None q) = Some ''id''
   \<and> ((\<forall>x\<in>set post. \<not> is_mutation_call x) \<and> as_rows d \<noteq> [] \<and> c \<noteq> [] \<longrightarrow>
        (\<exists>head vals. issued (snd (execute h (run_chain post (upsert d (Some c) q)) w))
           = issued w @ [(head @ '' ON CONFLICT (''
                            @ js_join '', '' (map quote_ident (conflict_targets c))
                            @ '') DO UPDATE SET ''
                            @ js_join '', '' (update_clauses (object_keys (hd (as_rows d))) c)
                            @ '' RETURNING *'', vals)]))
   \<and> ((\<forall>x\<in>set post. \<not> is_mutation_call x) \<and> as_rows d \<noteq> [] \<longrightarrow>
        (\<exists>head vals. issued (snd (execute h (run_chain post (upsert d None q)) w))
           = issued w @ [(head @ '' ON CONFLICT (''
                            @ js_join '', '' (map quote_ident (conflict_targets ''id''))
                            @ '') DO UPDATE SET ''
                            @ js_join '', '' (update_clauses (object_keys (hd (as_rows d))) ''id'')
                            @ '' RETURNING *'', vals)]))"
proof -
  have 1: "set (update_clauses keys conflict)
     = (\<lambda>k. quote_ident k @ '' = EXCLUDED.'' @ quote_ident k)
         ` {k \<in> set keys. k \<notin> set (conflict_targets conflict)}"
    by (auto simp: update_clauses_def)
  have 2: "\<forall>k. k \<in> set (conflict_targets conflict) \<longrightarrow>
          quote_ident k @ '' = EXCLUDED.'' @ quote_ident k \<notin> set (update_clauses keys conflict)"
    unfolding 1 using assignment_inj by blast
  have 3: "upsertConflict (upsert d (Some c) q) = Some (if c = [] then ''id'' else c)"
    by (simp add: upsert_def)
  have 4: "upsertConflict (upsert d None q) = Some ''id''"
    by (simp add: upsert_def)
  have 5: "(\<forall>x\<in>set post. \<not> is_mutation_call x) \<and> as_rows d \<noteq> [] \<and> c \<noteq> [] \<longrightarrow>
        (\<exists>head vals. issued (snd (execute h (run_chain post (upsert d (Some c) q)) w))
           = issued w @ [(head @ '' ON CONFLICT (''
                            @ js_join '', '' (map quote_ident (conflict_targets c))
                            @ '') DO UPDATE SET ''
                            @ js_join '', '' (update_clauses (object_keys (hd (as_rows d))) c)
                            @ '' RETURNING *'', vals)])"
  proof (intro impI, elim conjE)
    assume a: "\<forall>x\<in>set post. \<not> is_mutation_call x" and b: "as_rows d \<noteq> []" and c: "c \<noteq> []"
    have "upsertConflict (upsert d (Some c) q) = Some c" using 3 c by simp
    from executed_upsert_text [OF a b this]
    show "\<exists>head vals. issued (snd (execute h (run_chain post (upsert d (Some c) q)) w))
           = issued w @ [(head @ '' ON CONFLICT (''
                            @ js_join '', '' (map quote_ident (conflict_targets c))
                            @ '') DO UPDATE SET ''
                            @ js_join '', '' (update_clauses (object_keys (hd (as_rows d))) c)
                            @ '' RETURNING *'', vals)]" .
  qed
  have 6: "(\<forall>x\<in>set post. \<not> is_mutation_call x) \<and> as_rows d \<noteq> [] \<longrightarrow>
        (\<exists>head vals. issued (snd (execute h (run_chain post (upsert d None q)) w))
           = issued w @ [(head @ '' ON CONFLICT (''
                            @ js_join '', '' (map quote_ident (conflict_targets ''id''))
                            @ '') DO UPDATE SET ''
                            @ js_join '', '' (update_clauses (object_keys (hd (as_rows d))) ''id'')
                            @ '' RETURNING *'', vals)])"
  proof (intro impI, elim conjE)
    assume a: "\<forall>x\<in>set post. \<not> is_mutation_call x" and b: "as_rows d \<noteq> []"
    from executed_upsert_text [OF a b 4]
    show "\<exists>head vals. issued (snd (execute h (run_chain post (upsert d None q)) w))
           = issued w @ [(head @ '' ON CONFLICT (''
                            @ js_join '', '' (map quote_ident (conflict_targets ''id''))
                            @ '') DO UPDATE SET ''
                            @ js_join '', '' (update_clauses (object_keys (hd (as_rows d))) ''id'')
                            @ '' RETURNING *'', vals)]" .
  qed
  show ?thesis
    by (intro conjI) (fact 1, fact 2, fact 3, fact 4, fact 5, fact 6)
qed


theorem upsert_conflict_exclusion_witness:
  "''id'' \<in> set (conflict_targets ''id, email'')
   \<and> quote_ident ''id'' @ '' = EXCLUDED.'' @ quote_ident ''id''
        \<notin> set (update_clauses [''id'', ''email'', ''name''] ''id, email'')
   \<and> upsertConflict (upsert (OneRow [(''id'', JNum 1), (''email'', JStr ''j@x''), (''name'', JStr ''Jane'')])
                        (Some ''id, email'') (from_q ''users'' new_builder))
       = Some ''id, email''
   \<and> (\<exists>head vals.
         issued (snd (execute (fixed_pool [])
                        (run_chain [CSelect None None]
                           (upsert (OneRow [(''id'', JNum 1), (''email'', JStr ''j@x''), (''name'', JStr ''Jane'')])
                              (Some ''id, email'') (from_q ''users'' new_builder)))
                        fresh_world))
           = [(head @ '' ON CONFLICT ('' @ (quote_ident ''id'' @ '', '' @ quote_ident ''email'')
                 @ '') DO UPDATE SET ''
                 @ (quote_ident ''name'' @ '' = EXCLUDED.'' @ quote_ident ''name'')
                 @ '' RETURNING *'', vals)])"
proof -
  let ?d = "OneRow [(''id'', JNum 1), (''email'', JStr ''j@x''), (''name'', JStr ''Jane'')]"
  let ?q0 = "from_q ''users'' new_builder"
  note A = upsert_conflict_exclusion [where keys = "[''id'', ''email'', ''name'']"
      and conflict = "''id, email''" and d = ?d and c = "''id, email''" and q = ?q0
      and post = "[CSelect None None]" and h = "fixed_pool []" and w = fresh_world]
  have 1: "''id'' \<in> set (conflict_targets ''id, email'')" by code_simp
  have 2: "quote_ident ''id'' @ '' = EXCLUDED.'' @ quote_ident ''id''
        \<notin> set (update_clauses [''id'', ''email'', ''name''] ''id, email'')"
    using A [THEN conjunct2, THEN conjunct1, THEN spec, THEN mp, OF 1] .
  have ne: "''id, email'' \<noteq> []" by simp
  have 3: "upsertConflict (upsert ?d (Some ''id, email'') ?q0) = Some ''id, email''"
    using A [THEN conjunct2, THEN conjunct2, THEN conjunct1] unfolding if_not_P [OF ne] .
  have h: "(\<forall>x\<in>set [CSelect None None]. \<not> is_mutation_call x) \<and> as_rows ?d \<noteq> []
           \<and> ''id, email'' \<noteq> []"
    by simp
  have ev1: "js_join '', '' (map quote_ident (conflict_targets ''id, email''))
             = quote_ident ''id'' @ '', '' @ quote_ident ''email''"
    by code_simp
  have ev2: "js_join '', '' (update_clauses (object_keys (hd (as_rows ?d))) ''id, email'')
             = quote_ident ''name'' @ '' = EXCLUDED.'' @ quote_ident ''name''"
    by code_simp
  have w0: "issued fresh_world = []" by (simp add: fresh_world_def)
  have 4: "\<exists>head vals.
         issued (snd (execute (fixed_pool [])
                        (run_chain [CSelect None None] (upsert ?d (Some ''id, email'') ?q0))
                        fresh_world))
           = [(head @ '' ON CONFLICT ('' @ (quote_ident ''id'' @ '', '' @ quote_ident ''email'')
                 @ '') DO UPDATE SET ''
                 @ (quote_ident ''name'' @ '' = EXCLUDED.'' @ quote_ident ''name'')
                 @ '' RETURNING *'', vals)]"
    using A [THEN conjunct2, THEN conjunct2, THEN conjunct2, THEN conjunct2, THEN conjunct1,
             THEN mp, OF h]
    unfolding ev1 ev2 w0 append_Nil .
  show ?thesis
    by (intro conjI) (fact 1, fact 2, fact 3, fact 4)
qed

subsection \<open>Update: parameter alignment\<close>

lemma run_chain_append: "run_chain (xs @ ys) q = run_chain ys (run_chain xs q)"
  by (induction xs arbitrary: q) simp_all

lemma apply_bound_filter:
  "binds_value c \<Longrightarrow>
   apply_call c q
     = q\<lparr>params := params q @ [bound_value c],
         wheres := wheres q @ [expected_fragment c (Suc (length (params q)))]\<rparr>"
  by (cases c)
     (simp_all add: eq_def neq_def gt_def gte_def lt_def lte_def is_q_def not_q_def
        push_filter_def Let_def)

lemma run_bound_filters:
  "\<forall>c\<in>set fs. binds_value c \<Longrightarrow>
   run_chain fs q
     = q\<lparr>params := params q @ map bound_value fs,
         wheres := wheres q
           @ map (\<lambda>(n, c). expected_fragment c n) (enumerate (Suc (length (params q))) fs)\<rparr>"
proof (induction fs arbitrary: q)
  case Nil
  then show ?case by simp
next
  case (Cons c fs)
  then have c: "binds_value c" and fs: "\<forall>c\<in>set fs. binds_value c" by simp_all
  show ?case
    by (simp add: apply_bound_filter [OF c] Cons.IH [OF fs])
qed

text \<open>
  Claim C2. For a chain of \<open>N\<close> filter calls that each bind a value, followed by
  \<^verbatim>\<open>update(values)\<close> with \<open>M\<close> keys: the WHERE fragments carry the placeholders
  \<^verbatim>\<open>$1\<close> .. \<^verbatim>\<open>$N\<close> in call order, the SET clauses carry \<^verbatim>\<open>$(N+1)\<close> .. \<^verbatim>\<open>$(N+M)\<close> in key order,
  the parameter list is the \<open>N\<close> filter values followed by the \<open>M\<close> coerced update values
  (so its length is \<open>N + M\<close> and position \<open>i\<close> holds the value of placeholder \<open>i\<close>), and this
  is the statement the execution sends.
\<close>

theorem update_parameter_alignment:
  assumes "\<forall>c\<in>set fs. binds_value c"
  shows "update_stmt sf (run_chain (fs @ [CUpdate d]) (from_q t q0)) d
           = (''UPDATE '' @ quote_ident t @ '' SET ''
                @ js_join '', ''
                    (map (\<lambda>(n, k). quote_ident k @ '' = '' @ placeholder n)
                       (enumerate (Suc (length fs)) (object_keys d)))
                @ where_clause (map (\<lambda>(n, c). expected_fragment c n) (enumerate 1 fs)),
              map bound_value fs @ map (\<lambda>k. pgVal sf (obj_get d k)) (object_keys d))
         \<and> length (snd (update_stmt sf (run_chain (fs @ [CUpdate d]) (from_q t q0)) d))
             = length fs + length (object_keys d)
         \<and> issued (snd (execute h (run_chain (fs @ [CUpdate d]) (from_q t q0)) w))
             = issued w
                 @ [update_stmt (JSON_stringify h) (run_chain (fs @ [CUpdate d]) (from_q t q0)) d]"
proof -
  let ?q = "run_chain (fs @ [CUpdate d]) (from_q t q0)"
  have q: "?q = update_q d (run_chain fs (from_q t q0))"
    by (simp add: run_chain_append)
  have fields: "params ?q = map bound_value fs"
    "wheres ?q = map (\<lambda>(n, c). expected_fragment c n) (enumerate 1 fs)"
    "table ?q = Some t" "returnData ?q = False" "updateData ?q = Some d"
    "operation ?q = Some Update"
    unfolding q run_bound_filters [OF assms]
    by (simp_all add: update_q_def from_q_def new_builder_def)
  have stmt: "update_stmt sf ?q d
           = (''UPDATE '' @ quote_ident t @ '' SET ''
                @ js_join '', ''
                    (map (\<lambda>(n, k). quote_ident k @ '' = '' @ placeholder n)
                       (enumerate (Suc (length fs)) (object_keys d)))
                @ where_clause (map (\<lambda>(n, c). expected_fragment c n) (enumerate 1 fs)),
              map bound_value fs @ map (\<lambda>k. pgVal sf (obj_get d k)) (object_keys d))"
    by (simp add: update_stmt_def bind_sets_closed fields table_text_def)
  have len: "length (snd (update_stmt sf ?q d)) = length fs + length (object_keys d)"
    unfolding stmt by simp
  have iss: "issued (snd (execute h ?q w)) = issued w @ [update_stmt (JSON_stringify h) ?q d]"
    by (simp add: execute_world fields execUpdate_issued)
  show ?thesis using stmt len iss by blast
qed

theorem update_parameter_alignment_witness:
  "binds_value (CEq ''id'' (JNum 1)) \<and> binds_value (CGt ''age'' (JNum 18))
   \<and> update_stmt (\<lambda>v. ''[json]'')
        (run_chain [CEq ''id'' (JNum 1), CGt ''age'' (JNum 18), CUpdate [(''name'', JStr ''Jane'')]]
           (from_q ''users'' new_builder))
        [(''name'', JStr ''Jane'')]
      = (''UPDATE '' @ quote_ident ''users'' @ '' SET '' @ quote_ident ''name'' @ '' = $3 WHERE ''
           @ quote_ident ''id'' @ '' = $1 AND '' @ quote_ident ''age'' @ '' > $2'',
         [JNum 1, JNum 18, JStr ''Jane''])"
proof -
  let ?fs = "[CEq ''id'' (JNum 1), CGt ''age'' (JNum 18)]"
  let ?d = "[(''name'', JStr ''Jane'')]"
  have b: "\<forall>c\<in>set ?fs. binds_value c" by simp
  note A = update_parameter_alignment [OF b, where sf = "\<lambda>v. ''[json]''" and d = ?d
      and t = "''users''" and ?q0.0 = new_builder and h = "fixed_pool []" and w = fresh_world]
  have ev: "(''UPDATE '' @ quote_ident ''users'' @ '' SET ''
                @ js_join '', ''
                    (map (\<lambda>(n, k). quote_ident k @ '' = '' @ placeholder n)
                       (enumerate (Suc (length ?fs)) (object_keys ?d)))
                @ where_clause (map (\<lambda>(n, c). expected_fragment c n) (enumerate 1 ?fs)),
              map bound_value ?fs @ map (\<lambda>k. pgVal (\<lambda>v. ''[json]'') (obj_get ?d k)) (object_keys ?d))
    = (''UPDATE '' @ quote_ident ''users'' @ '' SET '' @ quote_ident ''name'' @ '' = $3 WHERE ''
           @ quote_ident ''id'' @ '' = $1 AND '' @ quote_ident ''age'' @ '' > $2'',
         [JNum 1, JNum 18, JStr ''Jane''])"
    by code_simp
  have 3: "update_stmt (\<lambda>v. ''[json]'') (run_chain (?fs @ [CUpdate ?d]) (from_q ''users'' new_builder)) ?d
      = (''UPDATE '' @ quote_ident ''users'' @ '' SET '' @ quote_ident ''name'' @ '' = $3 WHERE ''
           @ quote_ident ''id'' @ '' = $1 AND '' @ quote_ident ''age'' @ '' > $2'',
         [JNum 1, JNum 18, JStr ''Jane''])"
    using A [THEN conjunct1] unfolding ev .
  have ap: "?fs @ [CUpdate ?d] = [CEq ''id'' (JNum 1), CGt ''age'' (JNum 18), CUpdate ?d]" by simp
  show ?thesis
    using 3 unfolding ap by simp
qed

subsection \<open>The RETURNING clause\<close>

lemma returnData_apply_call:
  "returnData (apply_call c q)
     = (returnData q \<or> (is_select_call c \<and> is_mutation (operation q)))"
  by (cases c)
     (auto simp: select_q_def eq_def neq_def gt_def gte_def lt_def lte_def is_q_def not_q_def
        push_filter_def order_q_def limit_def single_def insert_q_def update_q_def upsert_def
        is_mutation_def Let_def split: option.splits)

lemma wheres_apply_call:
  assumes "\<forall>x\<in>set (wheres q). x \<noteq> [] \<and> last x \<noteq> CHR ''*''"
  shows "\<forall>x\<in>set (wheres (apply_call c q)). x \<noteq> [] \<and> last x \<noteq> CHR ''*''"
  using assms placeholder_last
  by (cases c)
     (auto simp: select_q_def eq_def neq_def gt_def gte_def lt_def lte_def is_q_def not_q_def
        push_filter_def order_q_def limit_def single_def insert_q_def update_q_def upsert_def
        Let_def split: option.splits)

lemma wheres_run_chain:
  "\<forall>x\<in>set (wheres q). x \<noteq> [] \<and> last x \<noteq> CHR ''*'' \<Longrightarrow>
   \<forall>x\<in>set (wheres (run_chain cs q)). x \<noteq> [] \<and> last x \<noteq> CHR ''*''"
proof (induction cs arbitrary: q)
  case Nil
  then show ?case by simp
next
  case (Cons c cs)
  show ?case using Cons.IH [OF wheres_apply_call [OF Cons.prems]] by simp
qed

lemma bind_rows_last:
  "rows \<noteq> [] \<Longrightarrow>
   snd (bind_rows sf keys rows (vals, phs)) \<noteq> []
   \<and> last (snd (bind_rows sf keys rows (vals, phs))) \<noteq> []
   \<and> last (last (snd (bind_rows sf keys rows (vals, phs)))) = CHR '')''"
proof (induction rows arbitrary: vals phs)
  case Nil
  then show ?case by simp
next
  case (Cons r rows)
  show ?case
  proof (cases "rows = []")
    case True
    then show ?thesis by (simp add: bind_keys_closed)
  next
    case False
    then show ?thesis using Cons.IH by (simp add: bind_keys_closed)
  qed
qed

lemma insert_base_no_star:
  assumes "rows \<noteq> []"
  shows "fst (insert_stmt sf (q\<lparr>returnData := False\<rparr>) rows) \<noteq> []
         \<and> last (fst (insert_stmt sf (q\<lparr>returnData := False\<rparr>) rows)) \<noteq> CHR ''*''"
proof -
  obtain vals phs where b: "bind_rows sf (object_keys (rows ! 0)) rows ([], []) = (vals, phs)"
    by (cases "bind_rows sf (object_keys (rows ! 0)) rows ([], [])")
  from bind_rows_last [OF assms, of sf "object_keys (rows ! 0)" "[]" "[]"] b
  have phs: "phs \<noteq> []" "last phs \<noteq> []" "last (last phs) = CHR '')''" by simp_all
  then have "js_join '', '' phs \<noteq> []" "last (js_join '', '' phs) = CHR '')''"
    using phs js_join_eq_Nil [of "'', ''" phs] last_js_join [of phs "'', ''"] by auto
  then show ?thesis
    by (simp add: insert_stmt_def b Let_def)
qed

lemma sets_last:
  "keys \<noteq> [] \<Longrightarrow>
   last (map (\<lambda>(n, k). quote_ident k @ '' = '' @ placeholder n) (enumerate m keys)) \<noteq> []
   \<and> last (last (map (\<lambda>(n, k). quote_ident k @ '' = '' @ placeholder n) (enumerate m keys)))
       \<noteq> CHR ''*''"
proof -
  assume "keys \<noteq> []"
  then have ne: "enumerate m keys \<noteq> []" by (cases keys) simp_all
  obtain n k where nk: "last (enumerate m keys) = (n, k)" by (cases "last (enumerate m keys)")
  show ?thesis
    using placeholder_last [of n] by (simp add: last_map [OF ne] nk quote_ident_def)
qed

lemma update_base_no_star:
  assumes "\<forall>x\<in>set (wheres q). x \<noteq> [] \<and> last x \<noteq> CHR ''*''"
  shows "fst (update_stmt sf (q\<lparr>returnData := False\<rparr>) d) \<noteq> []
         \<and> last (fst (update_stmt sf (q\<lparr>returnData := False\<rparr>) d)) \<noteq> CHR ''*''"
proof (cases "wheres q = []")
  case False
  then have "last (wheres q) \<in> set (wheres q)" by simp
  with assms have l: "last (wheres q) \<noteq> []" "last (last (wheres q)) \<noteq> CHR ''*''" by auto
  then have "js_join '' AND '' (wheres q) \<noteq> []"
    "last (js_join '' AND '' (wheres q)) \<noteq> CHR ''*''"
    using False js_join_eq_Nil [of "'' AND ''" "wheres q"] last_js_join [of "wheres q" "'' AND ''"]
    by auto
  then show ?thesis using False
    by (simp add: update_stmt_def bind_sets_closed where_clause_def)
next
  case True
  show ?thesis
  proof (cases "object_keys d = []")
    case True
    then show ?thesis using \<open>wheres q = []\<close>
      by (simp add: update_stmt_def bind_sets_closed where_clause_def)
  next
    case False
    let ?sets = "map (\<lambda>(n, k). quote_ident k @ '' = '' @ placeholder n)
                   (enumerate (Suc (length (params q))) (object_keys d))"
    have ne: "?sets \<noteq> []" using False by (cases "object_keys d") simp_all
    from sets_last [OF False, of "Suc (length (params q))"]
    have l: "last ?sets \<noteq> []" "last (last ?sets) \<noteq> CHR ''*''" by simp_all
    then have "js_join '', '' ?sets \<noteq> []" "last (js_join '', '' ?sets) \<noteq> CHR ''*''"
      using ne js_join_eq_Nil [of "'', ''" ?sets] last_js_join [of ?sets "'', ''"] by auto
    then show ?thesis using \<open>wheres q = []\<close>
      by (simp add: update_stmt_def bind_sets_closed where_clause_def)
  qed
qed

lemma insert_stmt_returning:
  "fst (insert_stmt sf q rows)
     = fst (insert_stmt sf (q\<lparr>returnData := False\<rparr>) rows)
         @ (if returnData q then '' RETURNING *'' else [])"
  by (cases "bind_rows sf (object_keys (rows ! 0)) rows ([], [])")
     (simp add: insert_stmt_def Let_def table_text_def)

lemma update_stmt_returning:
  "fst (update_stmt sf q d)
     = fst (update_stmt sf (q\<lparr>returnData := False\<rparr>) d)
         @ (if returnData q then '' RETURNING *'' else [])"
  by (simp add: update_stmt_def bind_sets_closed table_text_def)

lemma insert_returning_iff:
  "rows \<noteq> [] \<Longrightarrow> suffix '' RETURNING *'' (fst (insert_stmt sf q rows)) = returnData q"
  using insert_base_no_star [of rows sf q] not_suffix_star suffix_own
  by (subst insert_stmt_returning) (cases "returnData q", simp_all)

lemma update_returning_iff:
  "\<forall>x\<in>set (wheres q). x \<noteq> [] \<and> last x \<noteq> CHR ''*'' \<Longrightarrow>
   suffix '' RETURNING *'' (fst (update_stmt sf q d)) = returnData q"
  using update_base_no_star [of q sf d] not_suffix_star suffix_own
  by (subst update_stmt_returning) (cases "returnData q", simp_all)

lemma upsert_returning: "suffix '' RETURNING *'' (fst (upsert_stmt sf q rows conflict))"
  by (cases "bind_rows sf (object_keys (rows ! 0)) rows ([], [])")
     (simp add: upsert_stmt_def Let_def suffix_def)

lemma is_mutation_apply_call:
  "is_mutation (operation (apply_call c q)) = (is_mutation (operation q) \<or> is_mutation_call c)"
  by (cases c)
     (auto simp: select_q_def eq_def neq_def gt_def gte_def lt_def lte_def is_q_def not_q_def
        push_filter_def order_q_def limit_def single_def insert_q_def update_q_def upsert_def
        is_mutation_def Let_def split: option.splits)

lemma returnData_run_chain:
  "returnData (run_chain cs q)
     = (returnData q \<or> select_follows (is_mutation (operation q)) cs)"
proof (induction cs arbitrary: q)
  case Nil
  then show ?case by simp
next
  case (Cons c cs)
  show ?case
    unfolding run_chain.simps Cons.IH returnData_apply_call is_mutation_apply_call
    by auto
qed

lemma returnData_chain_from:
  "returnData (run_chain cs (from_q t q0)) = select_after_mutation cs"
  unfolding returnData_run_chain select_after_mutation_def
  by (simp add: from_q_def new_builder_def is_mutation_def)

lemma wheres_chain_from:
  "\<forall>x\<in>set (wheres (run_chain cs (from_q t q0))). x \<noteq> [] \<and> last x \<noteq> CHR ''*''"
  by (rule wheres_run_chain) (simp add: from_q_def new_builder_def)

lemma chain_after_mutation:
  assumes "\<forall>c\<in>set post. \<not> is_mutation_call c" and "is_mutation_call m"
  shows "operation (run_chain (pre @ m # post) q0) = operation (apply_call m (run_chain pre q0))
    \<and> insertData (run_chain (pre @ m # post) q0) = insertData (apply_call m (run_chain pre q0))
    \<and> updateData (run_chain (pre @ m # post) q0) = updateData (apply_call m (run_chain pre q0))
    \<and> upsertConflict (run_chain (pre @ m # post) q0)
        = upsertConflict (apply_call m (run_chain pre q0))"
proof -
  have "is_mutation (operation (apply_call m (run_chain pre q0)))"
    using assms(2) by (simp add: is_mutation_apply_call)
  from run_chain_keeps_mutation [OF assms(1) this] show ?thesis
    by (simp add: run_chain_append)
qed

lemma executed_insert_returning:
  assumes "\<forall>c\<in>set post. \<not> is_mutation_call c" and "as_rows d \<noteq> []"
  shows "\<exists>sql vals. issued (snd (execute h (run_chain (pre @ CInsert d # post) (from_q t q0)) w))
                     = issued w @ [(sql, vals)]
           \<and> suffix '' RETURNING *'' sql = select_after_mutation (pre @ CInsert d # post)"
proof -
  let ?qb = "run_chain (pre @ CInsert d # post) (from_q t q0)"
  from chain_after_mutation [OF assms(1), of "CInsert d" pre "from_q t q0"]
  have f: "operation ?qb = Some Insert" "insertData ?qb = Some (as_rows d)"
    by (simp_all add: insert_q_def)
  have i: "issued (snd (execute h ?qb w))
             = issued w @ [(fst (insert_stmt (JSON_stringify h) ?qb (as_rows d)),
                            snd (insert_stmt (JSON_stringify h) ?qb (as_rows d)))]"
    by (simp add: execute_world f execInsert_issued [OF f(2) assms(2)])
  have s: "suffix '' RETURNING *'' (fst (insert_stmt (JSON_stringify h) ?qb (as_rows d)))
             = select_after_mutation (pre @ CInsert d # post)"
    unfolding insert_returning_iff [OF assms(2)] returnData_chain_from ..
  from i s show ?thesis by - (rule exI, rule exI, rule conjI, assumption, assumption)
qed

lemma executed_update_returning:
  assumes "\<forall>c\<in>set post. \<not> is_mutation_call c"
  shows "\<exists>sql vals. issued (snd (execute h (run_chain (pre @ CUpdate u # post) (from_q t q0)) w))
                     = issued w @ [(sql, vals)]
           \<and> suffix '' RETURNING *'' sql = select_after_mutation (pre @ CUpdate u # post)"
proof -
  let ?qb = "run_chain (pre @ CUpdate u # post) (from_q t q0)"
  from chain_after_mutation [OF assms(1), of "CUpdate u" pre "from_q t q0"]
  have f: "operation ?qb = Some Update" "updateData ?qb = Some u"
    by (simp_all add: update_q_def)
  have i: "issued (snd (execute h ?qb w))
             = issued w @ [(fst (update_stmt (JSON_stringify h) ?qb u),
                            snd (update_stmt (JSON_stringify h) ?qb u))]"
    by (simp add: execute_world f execUpdate_issued [OF f(2)])
  have s: "suffix '' RETURNING *'' (fst (update_stmt (JSON_stringify h) ?qb u))
             = select_after_mutation (pre @ CUpdate u # post)"
    unfolding update_returning_iff [OF wheres_chain_from] returnData_chain_from ..
  from i s show ?thesis by - (rule exI, rule exI, rule conjI, assumption, assumption)
qed

lemma executed_upsert_returning:
  assumes "\<forall>c\<in>set post. \<not> is_mutation_call c" and "as_rows d \<noteq> []"
    and "qb = run_chain (pre @ CUpsert d oc # post) (from_q t q0)"
  shows "\<exists>sql vals. issued (snd (execute h qb w)) = issued w @ [(sql, vals)]
           \<and> suffix '' RETURNING *'' sql
           \<and> (\<forall>rs s'. pool_query h (sql, vals) (db w) = (Inr rs, s') \<longrightarrow>
                 fst (execute h qb w)
                   = Resolved \<lparr>data = (if singleResult qb
                                        then (case rs of [] \<Rightarrow> JNull | r # rest \<Rightarrow> JObj r)
                                        else JArr (map JObj rs)),
                               error = None, count = JUndefined\<rparr>)"
proof -
  obtain conflict where c: "upsertConflict (upsert d oc (run_chain pre (from_q t q0))) = Some conflict"
    by (simp add: upsert_def)
  from chain_after_mutation [OF assms(1), of "CUpsert d oc" pre "from_q t q0"]
  have f: "operation qb = Some Upsert" "insertData qb = Some (as_rows d)"
    "upsertConflict qb = Some conflict"
    unfolding assms(3) by (simp_all add: upsert_def c [symmetric])
  let ?st = "upsert_stmt (JSON_stringify h) qb (as_rows d) conflict"
  have i: "issued (snd (execute h qb w)) = issued w @ [(fst ?st, snd ?st)]"
    by (simp add: execute_world f execUpsert_issued [OF f(2) assms(2) f(3)])
  have s: "suffix '' RETURNING *'' (fst ?st)" by (rule upsert_returning)
  have r: "\<forall>rs s'. pool_query h (fst ?st, snd ?st) (db w) = (Inr rs, s') \<longrightarrow>
                 fst (execute h qb w)
                   = Resolved \<lparr>data = (if singleResult qb
                                        then (case rs of [] \<Rightarrow> JNull | r # rest \<Rightarrow> JObj r)
                                        else JArr (map JObj rs)),
                               error = None, count = JUndefined\<rparr>"
  proof (intro allI impI)
    fix rs s'
    assume "pool_query h (fst ?st, snd ?st) (db w) = (Inr rs, s')"
    then have "pool_query h ?st (db w) = (Inr rs, s')" by simp
    from execUpsert_success [OF f(2) assms(2) f(3) this]
    have "fst (execUpsert h qb w)
            = Inr \<lparr>data = rows_data qb rs, error = None, count = JUndefined\<rparr>" .
    then show "fst (execute h qb w)
                   = Resolved \<lparr>data = (if singleResult qb
                                        then (case rs of [] \<Rightarrow> JNull | r # rest \<Rightarrow> JObj r)
                                        else JArr (map JObj rs)),
                               error = None, count = JUndefined\<rparr>"
      by (cases "execUpsert h qb w")
         (simp add: execute_case f rows_data_def first_or_null_def)
  qed
  from i s r show ?thesis
    by - (rule exI, rule exI, rule conjI, assumption, rule conjI, assumption, assumption)
qed

text \<open>
  Claim C7. For a chain made of the calls \<open>pre\<close>, a mutation entry point \<open>m\<close> and the calls
  \<open>post\<close>, none of which is a mutation entry point: if \<open>m\<close> is \<^verbatim>\<open>insert\<close> (of a non-empty
  row list) or \<^verbatim>\<open>update\<close>, the text of the statement the execution sends ends with
  \<^verbatim>\<open>RETURNING *\<close> exactly when some \<^verbatim>\<open>select()\<close> call of the chain comes after a mutation
  entry point. If \<open>m\<close> is \<^verbatim>\<open>upsert\<close> (of a non-empty row list), the text always ends with
  \<^verbatim>\<open>RETURNING *\<close>, and when the connector answers with rows the data of the result are
  those rows (the first of them, or \<^verbatim>\<open>null\<close>, in single-row mode), whether \<^verbatim>\<open>select()\<close> was
  called or not.
\<close>

theorem returning_clause:
  assumes "\<forall>c\<in>set post. \<not> is_mutation_call c"
    and "cs = pre @ m # post"
    and "q = run_chain cs (from_q t q0)"
  shows "(m = CInsert d \<and> as_rows d \<noteq> [] \<longrightarrow>
            (\<exists>sql vals. issued (snd (execute h q w)) = issued w @ [(sql, vals)]
               \<and> suffix '' RETURNING *'' sql = select_after_mutation cs))
         \<and> (m = CUpdate u \<longrightarrow>
            (\<exists>sql vals. issued (snd (execute h q w)) = issued w @ [(sql, vals)]
               \<and> suffix '' RETURNING *'' sql = select_after_mutation cs))
         \<and> (m = CUpsert d oc \<and> as_rows d \<noteq> [] \<longrightarrow>
            (\<exists>sql vals. issued (snd (execute h q w)) = issued w @ [(sql, vals)]
               \<and> suffix '' RETURNING *'' sql
               \<and> (\<forall>rs s'. pool_query h (sql, vals) (db w) = (Inr rs, s') \<longrightarrow>
                     fst (execute h q w)
                       = Resolved \<lparr>data = (if singleResult q
                                            then (case rs of [] \<Rightarrow> JNull | r # rest \<Rightarrow> JObj r)
                                            else JArr (map JObj rs)),
                                   error = None, count = JUndefined\<rparr>)))"
proof (intro conjI impI)
  assume "m = CInsert d \<and> as_rows d \<noteq> []"
  then have m: "m = CInsert d" and ne: "as_rows d \<noteq> []" by simp_all
  show "\<exists>sql vals. issued (snd (execute h q w)) = issued w @ [(sql, vals)]
               \<and> suffix '' RETURNING *'' sql = select_after_mutation cs"
    unfolding assms(3) assms(2) m by (rule executed_insert_returning [OF assms(1) ne])
next
  assume m: "m = CUpdate u"
  show "\<exists>sql vals. issued (snd (execute h q w)) = issued w @ [(sql, vals)]
               \<and> suffix '' RETURNING *'' sql = select_after_mutation cs"
    unfolding assms(3) assms(2) m by (rule executed_update_returning [OF assms(1)])
next
  assume "m = CUpsert d oc \<and> as_rows d \<noteq> []"
  then have m: "m = CUpsert d oc" and ne: "as_rows d \<noteq> []" by simp_all
  have q: "q = run_chain (pre @ CUpsert d oc # post) (from_q t q0)"
    unfolding assms(3) assms(2) m ..
  show "\<exists>sql vals. issued (snd (execute h q w)) = issued w @ [(sql, vals)]
               \<and> suffix '' RETURNING *'' sql
               \<and> (\<forall>rs s'. pool_query h (sql, vals) (db w) = (Inr rs, s') \<longrightarrow>
                     fst (execute h q w)
                       = Resolved \<lparr>data = (if singleResult q
                                            then (case rs of [] \<Rightarrow> JNull | r # rest \<Rightarrow> JObj r)
                                            else JArr (map JObj rs)),
                                   error = None, count = JUndefined\<rparr>)"
    by (rule executed_upsert_returning [OF assms(1) ne q])
qed


theorem returning_clause_witness:
  "(\<exists>sql vals.
      issued (snd (execute (fixed_pool [])
                     (run_chain [CInsert (OneRow [(''name'', JStr ''John'')]), CSelect None None]
                        (from_q ''users'' new_builder))
                     fresh_world)) = [(sql, vals)]
      \<and> suffix '' RETURNING *'' sql)
   \<and> (\<exists>sql vals.
      issued (snd (execute (fixed_pool [])
                     (run_chain [CSelect None None, CInsert (OneRow [(''name'', JStr ''John'')])]
                        (from_q ''users'' new_builder))
                     fresh_world)) = [(sql, vals)]
      \<and> \<not> suffix '' RETURNING *'' sql)
   \<and> (\<exists>sql vals.
      issued (snd (execute (fixed_pool [])
                     (run_chain [CUpdate [(''name'', JStr ''Jane'')], CEq ''id'' (JNum 1), CSelect None None]
                        (from_q ''users'' new_builder))
                     fresh_world)) = [(sql, vals)]
      \<and> suffix '' RETURNING *'' sql)
   \<and> fst (execute (fixed_pool [[(''id'', JNum 1)]])
            (run_chain [CUpsert (OneRow [(''id'', JNum 1)]) None] (from_q ''users'' new_builder))
            fresh_world)
       = Resolved \<lparr>data = JArr [JObj [(''id'', JNum 1)]], error = None, count = JUndefined\<rparr>"
proof -
  let ?row = "[(''name'', JStr ''John'')]"
  let ?q0 = "from_q ''users'' new_builder"
  have w0: "issued fresh_world = []" by (simp add: fresh_world_def)
  have p1: "\<forall>c\<in>set [CSelect None None]. \<not> is_mutation_call c" by simp
  have p0: "\<forall>c\<in>set ([] :: call list). \<not> is_mutation_call c" by simp
  have p2: "\<forall>c\<in>set [CEq ''id'' (JNum 1), CSelect None None]. \<not> is_mutation_call c" by simp
  have ia: "CInsert (OneRow ?row) = CInsert (OneRow ?row) \<and> as_rows (OneRow ?row) \<noteq> []" by simp
  have sa: "select_after_mutation [CInsert (OneRow ?row), CSelect None None] = True"
    by code_simp
  have sb: "select_after_mutation [CSelect None None, CInsert (OneRow ?row)] = False"
    by code_simp
  have sc: "select_after_mutation
              [CUpdate [(''name'', JStr ''Jane'')], CEq ''id'' (JNum 1), CSelect None None]
            = True"
    by code_simp
  have 1: "\<exists>sql vals.
      issued (snd (execute (fixed_pool [])
                     (run_chain [CInsert (OneRow ?row), CSelect None None] ?q0) fresh_world))
        = [(sql, vals)] \<and> suffix '' RETURNING *'' sql"
    using returning_clause [OF p1 refl refl, where pre = "[]" and m = "CInsert (OneRow ?row)"
        and d = "OneRow ?row" and t = "''users''" and ?q0.0 = new_builder and h = "fixed_pool []"
        and w = fresh_world and u = "[]" and oc = None, THEN conjunct1, THEN mp, OF ia]
    unfolding sa w0 append.simps eq_True .
  have 2: "\<exists>sql vals.
      issued (snd (execute (fixed_pool [])
                     (run_chain [CSelect None None, CInsert (OneRow ?row)] ?q0) fresh_world))
        = [(sql, vals)] \<and> \<not> suffix '' RETURNING *'' sql"
    using returning_clause [OF p0 refl refl, where pre = "[CSelect None None]"
        and m = "CInsert (OneRow ?row)"
        and d = "OneRow ?row" and t = "''users''" and ?q0.0 = new_builder and h = "fixed_pool []"
        and w = fresh_world and u = "[]" and oc = None, THEN conjunct1, THEN mp, OF ia]
    unfolding sb w0 append.simps eq_False .
  have 3: "\<exists>sql vals.
      issued (snd (execute (fixed_pool [])
                     (run_chain [CUpdate [(''name'', JStr ''Jane'')], CEq ''id'' (JNum 1), CSelect None None]
                        ?q0) fresh_world))
        = [(sql, vals)] \<and> suffix '' RETURNING *'' sql"
    using returning_clause [OF p2 refl refl, where pre = "[]"
        and m = "CUpdate [(''name'', JStr ''Jane'')]"
        and d = "OneRow ?row" and t = "''users''" and ?q0.0 = new_builder and h = "fixed_pool []"
        and w = fresh_world and u = "[(''name'', JStr ''Jane'')]" and oc = None,
        THEN conjunct2, THEN conjunct1, THEN mp, OF refl]
    unfolding sc w0 append.simps eq_True .
  let ?up = "run_chain ([] @ CUpsert (OneRow [(''id'', JNum 1)]) None # []) ?q0"
  have iu: "CUpsert (OneRow [(''id'', JNum 1)]) None = CUpsert (OneRow [(''id'', JNum 1)]) None
            \<and> as_rows (OneRow [(''id'', JNum 1)]) \<noteq> []" by simp
  from returning_clause [OF p0 refl refl, where pre = "[]"
        and m = "CUpsert (OneRow [(''id'', JNum 1)]) None"
        and d = "OneRow [(''id'', JNum 1)]" and t = "''users''" and ?q0.0 = new_builder
        and h = "fixed_pool [[(''id'', JNum 1)]]"
        and w = fresh_world and u = "[]" and oc = None,
        THEN conjunct2, THEN conjunct2, THEN mp, OF iu]
  obtain sql vals where
    r: "\<forall>rs s'. pool_query (fixed_pool [[(''id'', JNum 1)]]) (sql, vals) (db fresh_world) = (Inr rs, s') \<longrightarrow>
          fst (execute (fixed_pool [[(''id'', JNum 1)]]) ?up fresh_world)
            = Resolved \<lparr>data = (if singleResult ?up
                                 then (case rs of [] \<Rightarrow> JNull | r # rest \<Rightarrow> JObj r)
                                 else JArr (map JObj rs)),
                        error = None, count = JUndefined\<rparr>"
    by (elim exE conjE)
  have ns: "singleResult ?up = False"
    by (simp add: upsert_def from_q_def new_builder_def)
  have "fst (execute (fixed_pool [[(''id'', JNum 1)]]) ?up fresh_world)
            = Resolved \<lparr>data = (if singleResult ?up
                                 then (case [[(''id'', JNum 1)]] of [] \<Rightarrow> JNull | r # rest \<Rightarrow> JObj r)
                                 else JArr (map JObj [[(''id'', JNum 1)]])),
                        error = None, count = JUndefined\<rparr>"
    by (rule r [THEN spec, THEN spec, THEN mp]) (rule fixed_pool_query)
  then have 4: "fst (execute (fixed_pool [[(''id'', JNum 1)]])
            (run_chain [CUpsert (OneRow [(''id'', JNum 1)]) None] ?q0) fresh_world)
       = Resolved \<lparr>data = JArr [JObj [(''id'', JNum 1)]], error = None, count = JUndefined\<rparr>"
    unfolding ns by simp
  show ?thesis
    by (intro conjI) (fact 1, fact 2, fact 3, fact 4)
qed

subsection \<open>Execution never rejects\<close>

text \<open>The promise of \<^verbatim>\<open>_execute\<close> is always resolved; what a branch throws becomes the
  envelope of the \<^verbatim>\<open>catch\<close> clause; \<^verbatim>\<open>then\<close> runs the caller's \<^verbatim>\<open>resolve\<close> and \<^verbatim>\<open>catch\<close> never
  runs its handler.\<close>

lemma execute_never_rejects: "\<exists>env w'. execute h this w = (Resolved env, w')"
  by (auto simp: execute_def try_catch_def async_result_def split: prod.splits sum.splits)

lemma execute_select:
  "operation this = Some Select \<Longrightarrow>
   execute h this w
     = (case execSelect h this w of
          (Inl err, w') \<Rightarrow> (Resolved \<lparr>data = JNull, error = Some err, count = JNull\<rparr>, w')
        | (Inr env, w') \<Rightarrow> (Resolved env, w'))"
  by (simp add: execute_def try_catch_def async_result_def split: prod.splits sum.splits)

lemma thrown_error_envelope:
  assumes "(if operation this = Some Select then execSelect h this w
           else if operation this = Some Insert then execInsert h this w
           else if operation this = Some Update then execUpdate h this w
           else if operation this = Some Upsert then execUpsert h this w
           else (Inr \<lparr>data = JNull, error = Some (Error ''No operation specified''),
                      count = JUndefined\<rparr>, w)) = (Inl err, w')"
  shows "execute h this w = (Resolved \<lparr>data = JNull, error = Some err, count = JNull\<rparr>, w')"
  unfolding execute_def assms by (simp add: try_catch_def async_result_def)

lemma then_q_resolves:
  "\<exists>env w'. execute h this w = (Resolved env, w') \<and> then_q h this resolve reject w = (resolve env, w')"
  using execute_never_rejects [of h this w] by (auto simp: then_q_def)

lemma catch_q_passes:
  "\<exists>env w'. execute h this w = (Resolved env, w') \<and> catch_q h this fn w = (Inl env, w')"
  using execute_never_rejects [of h this w] by (auto simp: catch_q_def)

text \<open>
  Claim C1, at a chain on which no operation was chosen (\<^verbatim>\<open>await db.from(t)\<close>): the
  execution resolves, with data \<^verbatim>\<open>null\<close> and the error \<^verbatim>\<open>No operation specified\<close>, but the
  envelope has no \<^verbatim>\<open>count\<close> property, so \<^verbatim>\<open>count\<close> reads \<^verbatim>\<open>undefined\<close> and not \<^verbatim>\<open>null\<close>, unlike
  the envelope of the \<^verbatim>\<open>catch\<close> clause.
\<close>

theorem no_operation_envelope:
  "execute h (from_q t q0) w
     = (Resolved \<lparr>data = JNull, error = Some (Error ''No operation specified''),
                  count = JUndefined\<rparr>, w)
   \<and> count \<lparr>data = JNull, error = Some (Error ''No operation specified''),
             count = JUndefined\<rparr> \<noteq> JNull"
  by (simp add: execute_def try_catch_def async_result_def from_q_def new_builder_def)

subsection \<open>The single-row flag and the limit\<close>

text \<open>
  Claim C9, as stated, fails: \<^verbatim>\<open>limit(5)\<close> called after \<^verbatim>\<open>single()\<close> leaves the single-row
  flag set and the limit at 5.
\<close>

theorem single_limit_counterexample:
  "singleResult (run_chain [CSelect None None, CSingle, CLimit 5] (from_q ''users'' new_builder))
   \<and> limitVal (run_chain [CSelect None None, CSingle, CLimit 5] (from_q ''users'' new_builder))
       = Some 5
   \<and> \<not> single_limit_inv
         (run_chain [CSelect None None, CSingle, CLimit 5] (from_q ''users'' new_builder))"
  by (simp add: single_limit_inv_def limit_def single_def)

lemma singleResult_apply_call:
  "(\<forall>n. c \<noteq> CLimit n) \<Longrightarrow> c \<noteq> CSingle \<Longrightarrow>
   singleResult (apply_call c q) = singleResult q \<and> limitVal (apply_call c q) = limitVal q"
  by (cases c)
     (auto simp: select_q_def eq_def neq_def gt_def gte_def lt_def lte_def is_q_def not_q_def
        push_filter_def order_q_def insert_q_def update_q_def upsert_def
        Let_def split: option.splits)

lemma inv_apply_call:
  assumes "single_limit_inv q" and "\<forall>n. c = CLimit n \<longrightarrow> singleResult q \<longrightarrow> n = 1"
  shows "single_limit_inv (apply_call c q)"
proof (cases "(\<exists>n. c = CLimit n) \<or> c = CSingle")
  case True
  then show ?thesis using assms
    by (auto simp: single_limit_inv_def limit_def single_def)
next
  case False
  then show ?thesis using assms singleResult_apply_call [of c q]
    by (simp add: single_limit_inv_def)
qed

lemma inv_run_chain:
  "single_limit_inv q \<Longrightarrow> \<forall>n. CLimit n \<notin> set cs \<Longrightarrow> single_limit_inv (run_chain cs q)"
proof (induction cs arbitrary: q)
  case Nil
  then show ?case by simp
next
  case (Cons c cs)
  have "single_limit_inv (apply_call c q)"
    using Cons.prems by (intro inv_apply_call) auto
  then show ?case using Cons by simp
qed

text \<open>
  Claim C9, amended. The invariant holds for the builder \<^verbatim>\<open>from\<close> returns, \<^verbatim>\<open>single()\<close>
  establishes it, and every builder method preserves it except a call \<^verbatim>\<open>limit(n)\<close> with
  \<open>n \<noteq> 1\<close> made while the flag is set, which breaks it; so it holds at compilation for
  every chain in which no \<^verbatim>\<open>limit\<close> call follows \<^verbatim>\<open>single()\<close>.
\<close>

theorem single_limit_preserved:
  "single_limit_inv (from_q t q0)
   \<and> single_limit_inv (single q)
   \<and> (single_limit_inv q \<and> (\<forall>n. c = CLimit n \<longrightarrow> singleResult q \<longrightarrow> n = 1)
        \<longrightarrow> single_limit_inv (apply_call c q))
   \<and> (single_limit_inv q \<and> (\<forall>n. CLimit n \<notin> set cs) \<longrightarrow> single_limit_inv (run_chain cs q))
   \<and> (singleResult q \<and> n \<noteq> 1 \<longrightarrow> \<not> single_limit_inv (limit n q))"
proof -
  have 1: "single_limit_inv (from_q t q0)"
    by (simp add: single_limit_inv_def from_q_def new_builder_def)
  have 2: "single_limit_inv (single q)"
    by (simp add: single_limit_inv_def single_def)
  have 3: "single_limit_inv q \<and> (\<forall>n. c = CLimit n \<longrightarrow> singleResult q \<longrightarrow> n = 1)
        \<longrightarrow> single_limit_inv (apply_call c q)"
    using inv_apply_call by blast
  have 4: "single_limit_inv q \<and> (\<forall>n. CLimit n \<notin> set cs) \<longrightarrow> single_limit_inv (run_chain cs q)"
    using inv_run_chain by blast
  have 5: "singleResult q \<and> n \<noteq> 1 \<longrightarrow> \<not> single_limit_inv (limit n q)"
    by (simp add: single_limit_inv_def limit_def)
  show ?thesis by (intro conjI) (fact 1, fact 2, fact 3, fact 4, fact 5)
qed

theorem single_limit_preserved_witness:
  "single_limit_inv (run_chain [CSelect None None, CEq ''id'' (JNum 1), CLimit 10, CSingle, COrder ''name'' None]
      (from_q ''users'' new_builder))
   \<and> singleResult (run_chain [CSelect None None, CEq ''id'' (JNum 1), CLimit 10, CSingle, COrder ''name'' None]
      (from_q ''users'' new_builder))
   \<and> \<not> single_limit_inv (limit 5 (single (from_q ''users'' new_builder)))"
proof -
  let ?q0 = "from_q ''users'' new_builder"
  let ?q1 = "run_chain [CSelect None None, CEq ''id'' (JNum 1), CLimit 10, CSingle] ?q0"
  note A = single_limit_preserved [where t = "''users''" and ?q0.0 = new_builder
      and q = "run_chain [CSelect None None, CEq ''id'' (JNum 1), CLimit 10] ?q0"
      and c = CSingle and cs = "[COrder ''name'' None]" and n = 5]
  note B = single_limit_preserved [where t = "''users''" and ?q0.0 = new_builder
      and q = ?q1 and c = CSingle and cs = "[COrder ''name'' None]" and n = 5]
  note C = single_limit_preserved [where t = "''users''" and ?q0.0 = new_builder
      and q = "single ?q0" and c = CSingle and cs = "[]" and n = 5]
  have q1: "?q1 = single (run_chain [CSelect None None, CEq ''id'' (JNum 1), CLimit 10] ?q0)"
    by simp
  have i1: "single_limit_inv ?q1"
    unfolding q1 by (rule A [THEN conjunct2, THEN conjunct1])
  have nl: "\<forall>n. CLimit n \<notin> set [COrder ''name'' None]" by simp
  have "single_limit_inv (run_chain [COrder ''name'' None] ?q1)"
    by (rule B [THEN conjunct2, THEN conjunct2, THEN conjunct2, THEN conjunct1, THEN mp])
       (intro conjI i1 nl)
  then have 1: "single_limit_inv (run_chain [CSelect None None, CEq ''id'' (JNum 1), CLimit 10, CSingle, COrder ''name'' None] ?q0)"
    by simp
  have 2: "singleResult (run_chain [CSelect None None, CEq ''id'' (JNum 1), CLimit 10, CSingle, COrder ''name'' None] ?q0)"
    by (simp add: order_q_def single_def)
  have s: "singleResult (single ?q0) \<and> (5::int) \<noteq> 1" by (simp add: single_def)
  have 3: "\<not> single_limit_inv (limit 5 (single ?q0))"
    by (rule C [THEN conjunct2, THEN conjunct2, THEN conjunct2, THEN conjunct2, THEN mp, OF s])
  show ?thesis by (intro conjI) (fact 1, fact 2, fact 3)
qed

subsection \<open>The single-row contract\<close>





lemma join_match_star: "join_match [] ''*'' = None"
  by code_simp





subsection \<open>The embedded relation\<close>

lemma obj_get_own: "map_of r k = Some v \<Longrightarrow> obj_get r k = v"
  by (simp add: obj_get_def)

lemma map_of_obj_set: "k \<noteq> ''__proto__'' \<Longrightarrow> map_of (obj_set r k v) k = Some v"
  by (induction r) auto

lemma map_of_obj_set_other: "k' \<noteq> k \<Longrightarrow> map_of (obj_set r k v) k' = map_of r k'"
  by (induction r) auto

lemma map_of_obj_delete_other: "k' \<noteq> k \<Longrightarrow> map_of (obj_delete r k) k' = map_of r k'"
  by (induction r) (auto simp: obj_delete_def)

lemma obj_get_obj_set: "k \<noteq> ''__proto__'' \<Longrightarrow> obj_get (obj_set r k v) k = v"
  by (simp add: obj_get_def map_of_obj_set)

lemma obj_get_obj_set_other: "k' \<noteq> k \<Longrightarrow> obj_get (obj_set r k v) k' = obj_get r k'"
  by (simp add: obj_get_def map_of_obj_set_other)

lemma obj_get_obj_delete_other: "k' \<noteq> k \<Longrightarrow> obj_get (obj_delete r k) k' = obj_get r k'"
  by (simp add: obj_get_def map_of_obj_delete_other)

lemma keys_obj_set: "set (object_keys (obj_set r k v)) \<subseteq> insert k (set (object_keys r))"
  by (induction r) (auto simp: object_keys_def)

lemma keys_obj_delete: "set (object_keys (obj_delete r k)) = set (object_keys r) - {k}"
  by (auto simp: object_keys_def obj_delete_def)

lemma word_not_space: "is_word ch \<Longrightarrow> \<not> is_space ch"
  by (auto simp: is_word_def is_space_def Let_def)

lemma star_not_word: "\<not> is_word (CHR ''*'')" "\<not> is_space (CHR ''*'')"
  by (simp_all add: is_word_def is_space_def)

lemma paren_not_word: "\<not> is_word (CHR ''('')"
  by (simp add: is_word_def)

lemma space_is_space: "is_space (CHR '' '')"
  by (simp add: is_space_def)

lemma match_here_star: "match_here (CHR ''*'' # xs) = None"
  by (simp add: match_here_def star_not_word)

lemma match_here_form:
  assumes "T \<noteq> []" "\<forall>ch\<in>set T. is_word ch" "C \<noteq> []" "CHR '')'' \<notin> set C"
  shows "match_here ('', '' @ T @ ''('' @ C @ '')'') = Some (T, C, [])"
proof -
  obtain a T' where T: "T = a # T'" using assms(1) by (cases T) auto
  then have a: "\<not> is_space a" using assms(2) by (simp add: word_not_space)
  have s2: "dropWhile is_space ('' '' @ T @ ''('' @ C @ '')'') = T @ ''('' @ C @ '')''"
    using a by (simp add: T space_is_space)
  have g1: "takeWhile is_word (T @ ''('' @ C @ '')'') = T"
    using assms(2) by (simp add: takeWhile_append2 paren_not_word)
  have s3: "dropWhile is_word (T @ ''('' @ C @ '')'') = ''('' @ C @ '')''"
    using assms(2) by (simp add: dropWhile_append2 paren_not_word)
  have g2: "takeWhile (\<lambda>d. d \<noteq> CHR '')'') (C @ '')'') = C"
    using assms(4) by (subst takeWhile_append2) auto
  have s5: "dropWhile (\<lambda>d. d \<noteq> CHR '')'') (C @ '')'') = '')''"
    using assms(4) by (subst dropWhile_append2) auto
  show ?thesis
    unfolding match_here_def
    using s2 g1 s3 g2 s5 assms(1,3) by (simp add: Let_def)
qed

lemma join_match_form:
  assumes "T \<noteq> []" "\<forall>ch\<in>set T. is_word ch" "C \<noteq> []" "CHR '')'' \<notin> set C"
  shows "join_match [] (''*, '' @ T @ ''('' @ C @ '')'') = Some (''*'', T, C, [])"
  using match_here_form [OF assms] by (simp add: match_here_star)

lemma star_clean: "strip_trailing_comma (js_trim ''*'') = ''*''"
  by code_simp

lemma select_form:
  assumes "T \<noteq> []" "\<forall>ch\<in>set T. is_word ch" "C \<noteq> []" "CHR '')'' \<notin> set C"
  shows "select_q (Some (''*, '' @ T @ ''('' @ C @ '')'')) cnt (from_q t q0)
     = (from_q t q0)\<lparr>operation := Some Select, countExact := (cnt = Some ''exact''),
          selectCols := ''*'',
          joins := [\<lparr>jtable = T, jcolumns = map js_trim (js_split '','' C),
                     fk = strip_final_s T @ ''_id''\<rparr>]\<rparr>"
proof -
  have m: "join_match [] (CHR ''*'' # CHR '','' # CHR '' '' # T @ CHR ''('' # C @ '')'')
      = Some (''*'', T, C, [])"
    using join_match_form [OF assms] by (simp del: join_match.simps)
  show ?thesis
    unfolding select_q_def
    by (simp add: from_q_def new_builder_def star_clean Let_def m del: join_match.simps)
qed

lemma lift_columns_main_keys:
  "set (object_keys (snd (lift_columns j r cs (n, m))))
     = set (object_keys m) - (\<lambda>c. jtable j @ ''_'' @ c) ` set cs"
  by (induction cs arbitrary: n m) (auto simp: keys_obj_delete)

lemma lift_columns_main_other:
  "\<forall>c\<in>set cs. k \<noteq> jtable j @ ''_'' @ c
     \<Longrightarrow> map_of (snd (lift_columns j r cs (n, m))) k = map_of m k"
  by (induction cs arbitrary: n m) (auto simp: map_of_obj_delete_other)

lemma lift_columns_nested_keys:
  "set (object_keys (fst (lift_columns j r cs (n, m)))) \<subseteq> set (object_keys n) \<union> set cs"
proof (induction cs arbitrary: n m)
  case Nil
  then show ?case by simp
next
  case (Cons c cs)
  from Cons.IH [of "obj_set n c (obj_get r (jtable j @ ''_'' @ c))"
      "obj_delete m (jtable j @ ''_'' @ c)"]
    keys_obj_set [of n c "obj_get r (jtable j @ ''_'' @ c)"]
  show ?case by auto
qed

lemma lift_columns_nested_other:
  "c \<notin> set cs \<Longrightarrow> map_of (fst (lift_columns j r cs (n, m))) c = map_of n c"
  by (induction cs arbitrary: n m) (auto simp: map_of_obj_set_other)

lemma lift_columns_nested_value:
  "c \<in> set cs \<Longrightarrow> c \<noteq> ''__proto__''
     \<Longrightarrow> map_of (fst (lift_columns j r cs (n, m))) c = Some (obj_get r (jtable j @ ''_'' @ c))"
proof (induction cs arbitrary: n m)
  case Nil
  then show ?case by simp
next
  case (Cons a cs)
  show ?case
  proof (cases "c \<in> set cs")
    case True
    then show ?thesis using Cons.IH Cons.prems(2) by simp
  next
    case False
    then have "a = c" using Cons.prems(1) by simp
    then show ?thesis
      using False Cons.prems(2) by (simp add: lift_columns_nested_other map_of_obj_set)
  qed
qed

lemma reshape_row_split:
  "reshape_row j r = obj_set (snd (lift_columns j r (jcolumns j) ([], r))) (jtable j)
                       (JObj (fst (lift_columns j r (jcolumns j) ([], r))))"
  by (simp add: reshape_row_def split: prod.splits)

lemma reshape_row_nested:
  assumes "jtable j \<noteq> ''__proto__''"
  shows "\<exists>nested. obj_get (reshape_row j r) (jtable j) = JObj nested
           \<and> set (object_keys nested) \<subseteq> set (jcolumns j)
           \<and> (\<forall>c\<in>set (jcolumns j). c \<noteq> ''__proto__''
                 \<longrightarrow> obj_get nested c = obj_get r (jtable j @ ''_'' @ c))"
proof -
  let ?n = "fst (lift_columns j r (jcolumns j) ([], r))"
  have a: "obj_get (reshape_row j r) (jtable j) = JObj ?n"
    unfolding reshape_row_split using assms by (rule obj_get_obj_set)
  have b: "set (object_keys ?n) \<subseteq> set (jcolumns j)"
    using lift_columns_nested_keys [of j r "jcolumns j" "[]" r] by (simp add: object_keys_def)
  have c: "\<forall>c\<in>set (jcolumns j). c \<noteq> ''__proto__''
                 \<longrightarrow> obj_get ?n c = obj_get r (jtable j @ ''_'' @ c)"
    by (auto simp: lift_columns_nested_value obj_get_own)
  from a b c show ?thesis by blast
qed

lemma reshape_row_no_alias:
  "c \<in> set (jcolumns j) \<Longrightarrow> jtable j @ ''_'' @ c \<notin> set (object_keys (reshape_row j r))"
proof -
  assume c: "c \<in> set (jcolumns j)"
  let ?m = "snd (lift_columns j r (jcolumns j) ([], r))"
  have "jtable j @ ''_'' @ c \<notin> set (object_keys ?m)"
    using c by (simp add: lift_columns_main_keys)
  moreover have "jtable j @ ''_'' @ c \<noteq> jtable j" by simp
  ultimately show ?thesis
    unfolding reshape_row_split
    using keys_obj_set [of ?m "jtable j" "JObj (fst (lift_columns j r (jcolumns j) ([], r)))"]
    by blast
qed

lemma reshape_row_other:
  assumes "k \<noteq> jtable j" "\<forall>c\<in>set (jcolumns j). k \<noteq> jtable j @ ''_'' @ c"
  shows "obj_get (reshape_row j r) k = obj_get r k"
proof -
  have "map_of (reshape_row j r) k = map_of r k"
    unfolding reshape_row_split
    using assms lift_columns_main_other [of "jcolumns j" k j r "[]" r]
    by (simp add: map_of_obj_set_other)
  then show ?thesis by (simp add: obj_get_def)
qed

lemma orders_columns: "map js_trim (js_split '','' ''total, status'') = [''total'', ''status'']"
  by code_simp

lemma orders_fk: "strip_final_s ''orders'' @ ''_id'' = ''order_id''"
  by code_simp

text \<open>Calls that are neither \<^verbatim>\<open>select\<close> nor a mutation entry point leave what \<^verbatim>\<open>select\<close>
  recorded.\<close>

lemma apply_call_keeps_select:
  assumes "\<not> is_select_call c \<and> \<not> is_mutation_call c"
  shows "operation (apply_call c q) = operation q \<and> joins (apply_call c q) = joins q
         \<and> selectCols (apply_call c q) = selectCols q
         \<and> countExact (apply_call c q) = countExact q \<and> table (apply_call c q) = table q"
  using assms
  by (cases c)
     (auto simp: eq_def neq_def gt_def gte_def lt_def lte_def is_q_def not_q_def
        push_filter_def order_q_def limit_def single_def Let_def)

lemma run_chain_keeps_select:
  assumes "\<forall>c\<in>set post. \<not> is_select_call c \<and> \<not> is_mutation_call c"
  shows "operation (run_chain post q) = operation q \<and> joins (run_chain post q) = joins q
         \<and> selectCols (run_chain post q) = selectCols q
         \<and> countExact (run_chain post q) = countExact q \<and> table (run_chain post q) = table q"
  using assms
proof (induction post arbitrary: q)
  case Nil
  then show ?case by simp
next
  case (Cons c post)
  have "\<not> is_select_call c \<and> \<not> is_mutation_call c" using Cons.prems by simp
  from apply_call_keeps_select [OF this, of q] Cons.IH [of "apply_call c q"] Cons.prems
  show ?case by simp
qed

text \<open>
  Claim C5. Let the select string be \<^verbatim>\<open>*, \<close> followed by a relation name \<open>T\<close> (one or more word
  characters), \<^verbatim>\<open>(\<close>, a column list \<open>C\<close> (one or more characters other than \<^verbatim>\<open>)\<close>) and \<^verbatim>\<open>)\<close>;
  the string \<^verbatim>\<open>*, orders(total, status)\<close> of the specification is the case \<open>T\<close> = \<^verbatim>\<open>orders\<close>,
  \<open>C\<close> = \<^verbatim>\<open>total, status\<close>. Then \<^verbatim>\<open>from(t).select(...)\<close> records exactly one join descriptor
  \<open>J\<close>: target \<open>T\<close>, the trimmed entries of \<open>C\<close> as columns, and as foreign key \<open>T\<close> without
  its final \<^verbatim>\<open>s\<close> followed by \<^verbatim>\<open>_id\<close> (\<^verbatim>\<open>order_id\<close> for \<^verbatim>\<open>orders\<close>); the projection is \<^verbatim>\<open>*\<close>.
  After any further calls \<open>post\<close> that are neither \<^verbatim>\<open>select\<close> nor a mutation entry point,
  the statement of the builder is a LEFT JOIN of \<open>T\<close> on \<^verbatim>\<open>t.fk = T.id\<close> with every joined
  column \<open>col\<close> aliased \<^verbatim>\<open>T_col\<close>. Every reshaped row has under \<open>T\<close> an object whose keys are
  among the columns and which holds for each column the value the row had under the
  alias; it has no alias key left; and it keeps its other values. When the connector
  answers the statement with the rows \<open>rs\<close>, the execution sends that statement and its
  data are the reshaped rows (the first of them, or \<^verbatim>\<open>null\<close>, in single-row mode).
\<close>

theorem join_select_orders:
  assumes "T \<noteq> []" and "\<forall>ch\<in>set T. is_word ch" and "C \<noteq> []" and "CHR '')'' \<notin> set C"
    and "q = select_q (Some (''*, '' @ T @ ''('' @ C @ '')'')) cnt (from_q t q0)"
    and "cols = map js_trim (js_split '','' C)"
    and "J = \<lparr>jtable = T, jcolumns = cols, fk = strip_final_s T @ ''_id''\<rparr>"
    and "\<forall>x\<in>set post. \<not> is_select_call x \<and> \<not> is_mutation_call x"
    and "this = run_chain post q"
  shows "joins q = [J] \<and> selectCols q = ''*''
    \<and> select_sql this
        = ''SELECT '' @ quote_ident t @ ''.*, ''
            @ js_join '', ''
                (map (\<lambda>col. quote_ident T @ ''.'' @ quote_ident col @ '' AS ''
                              @ quote_ident (T @ ''_'' @ col)) cols)
            @ '' FROM '' @ quote_ident t
            @ '' LEFT JOIN '' @ quote_ident T @ '' ON ''
            @ quote_ident t @ ''.'' @ quote_ident (strip_final_s T @ ''_id'')
            @ '' = '' @ quote_ident T @ ''.'' @ quote_ident ''id''
            @ where_clause (wheres this)
            @ (if orderClauses this = [] then []
               else '' ORDER BY '' @ js_join '', '' (orderClauses this))
            @ (case limitVal this of None \<Rightarrow> [] | Some n \<Rightarrow> '' LIMIT '' @ show_int n)
    \<and> (T \<noteq> ''__proto__'' \<longrightarrow>
         (\<exists>nested. obj_get (reshape_row J r) T = JObj nested
            \<and> set (object_keys nested) \<subseteq> set cols
            \<and> (\<forall>col\<in>set cols. col \<noteq> ''__proto__''
                  \<longrightarrow> obj_get nested col = obj_get r (T @ ''_'' @ col))))
    \<and> (\<forall>col\<in>set cols. T @ ''_'' @ col \<notin> set (object_keys (reshape_row J r)))
    \<and> (k \<noteq> T \<and> (\<forall>col\<in>set cols. k \<noteq> T @ ''_'' @ col)
         \<longrightarrow> obj_get (reshape_row J r) k = obj_get r k)
    \<and> (pool_query h (select_sql this, params this) (db w) = (Inr rs, s1)
         \<and> (cnt = Some ''exact'' \<longrightarrow>
               pool_query h (count_sql this, params this) s1 = (Inr (c # cs), s2))
         \<longrightarrow> fst (execute h this w)
               = Resolved
                   \<lparr>data = (if singleResult this
                            then (case rs of [] \<Rightarrow> JNull | r # rest \<Rightarrow> JObj (reshape_row J r))
                            else JArr (map (\<lambda>r. JObj (reshape_row J r)) rs)),
                    error = (if singleResult this \<and> rs = []
                             then Some (PlainMessage ''Row not found'') else None),
                    count = (if cnt = Some ''exact'' then parseInt h (obj_get c ''count'')
                             else JNull)\<rparr>
             \<and> issued (snd (execute h this w))
                 = issued w @ (select_sql this, params this)
                     # (if cnt = Some ''exact'' then [(count_sql this, params this)] else []))"
proof -
  have jt: "jtable J = T" "jcolumns J = cols" "fk J = strip_final_s T @ ''_id''"
    by (simp_all add: assms(7))
  have q: "q = (from_q t q0)\<lparr>operation := Some Select, countExact := (cnt = Some ''exact''),
          selectCols := ''*'', joins := [J]\<rparr>"
    unfolding assms(5) assms(7) assms(6) by (rule select_form [OF assms(1-4)])
  have 1: "joins q = [J]" "selectCols q = ''*''"
    by (simp_all add: q)
  from run_chain_keeps_select [OF assms(8), of q]
  have f: "operation this = Some Select" "joins this = [J]" "selectCols this = ''*''"
    "countExact this = (cnt = Some ''exact'')" "table this = Some t"
    unfolding assms(9) by (simp_all add: q from_q_def new_builder_def)
  have 2: "select_sql this
        = ''SELECT '' @ quote_ident t @ ''.*, ''
            @ js_join '', ''
                (map (\<lambda>col. quote_ident T @ ''.'' @ quote_ident col @ '' AS ''
                              @ quote_ident (T @ ''_'' @ col)) cols)
            @ '' FROM '' @ quote_ident t
            @ '' LEFT JOIN '' @ quote_ident T @ '' ON ''
            @ quote_ident t @ ''.'' @ quote_ident (strip_final_s T @ ''_id'')
            @ '' = '' @ quote_ident T @ ''.'' @ quote_ident ''id''
            @ where_clause (wheres this)
            @ (if orderClauses this = [] then []
               else '' ORDER BY '' @ js_join '', '' (orderClauses this))
            @ (case limitVal this of None \<Rightarrow> [] | Some n \<Rightarrow> '' LIMIT '' @ show_int n)"
    by (simp add: select_sql_def f jt table_text_def Let_def)
  have 3: "T \<noteq> ''__proto__'' \<longrightarrow>
         (\<exists>nested. obj_get (reshape_row J r) T = JObj nested
            \<and> set (object_keys nested) \<subseteq> set cols
            \<and> (\<forall>col\<in>set cols. col \<noteq> ''__proto__''
                  \<longrightarrow> obj_get nested col = obj_get r (T @ ''_'' @ col)))"
    using reshape_row_nested [of J r] unfolding jt by (rule impI)
  have 4: "\<forall>col\<in>set cols. T @ ''_'' @ col \<notin> set (object_keys (reshape_row J r))"
    using reshape_row_no_alias [of _ J r] unfolding jt by (rule ballI)
  have 5: "k \<noteq> T \<and> (\<forall>col\<in>set cols. k \<noteq> T @ ''_'' @ col)
         \<longrightarrow> obj_get (reshape_row J r) k = obj_get r k"
    using reshape_row_other [of k J r] unfolding jt by blast
  have 6: "pool_query h (select_sql this, params this) (db w) = (Inr rs, s1)
         \<and> (cnt = Some ''exact'' \<longrightarrow>
               pool_query h (count_sql this, params this) s1 = (Inr (c # cs), s2))
         \<longrightarrow> fst (execute h this w)
               = Resolved
                   \<lparr>data = (if singleResult this
                            then (case rs of [] \<Rightarrow> JNull | r # rest \<Rightarrow> JObj (reshape_row J r))
                            else JArr (map (\<lambda>r. JObj (reshape_row J r)) rs)),
                    error = (if singleResult this \<and> rs = []
                             then Some (PlainMessage ''Row not found'') else None),
                    count = (if cnt = Some ''exact'' then parseInt h (obj_get c ''count'')
                             else JNull)\<rparr>
             \<and> issued (snd (execute h this w))
                 = issued w @ (select_sql this, params this)
                     # (if cnt = Some ''exact'' then [(count_sql this, params this)] else [])"
  proof (intro impI, elim conjE)
    assume a: "pool_query h (select_sql this, params this) (db w) = (Inr rs, s1)"
      and b: "cnt = Some ''exact'' \<longrightarrow>
               pool_query h (count_sql this, params this) s1 = (Inr (c # cs), s2)"
    have b': "countExact this \<longrightarrow>
               pool_query h (count_sql this, params this) s1 = (Inr (c # cs), s2)"
      using b f(4) by simp
    note E = execSelect_result [OF a b']
    have d: "rows_data this (reshape_rows this rs)
               = (if singleResult this
                  then (case rs of [] \<Rightarrow> JNull | r # rest \<Rightarrow> JObj (reshape_row J r))
                  else JArr (map (\<lambda>r. JObj (reshape_row J r)) rs))"
      by (cases rs) (simp_all add: rows_data_def first_or_null_def reshape_rows_def f)
    show "fst (execute h this w)
               = Resolved
                   \<lparr>data = (if singleResult this
                            then (case rs of [] \<Rightarrow> JNull | r # rest \<Rightarrow> JObj (reshape_row J r))
                            else JArr (map (\<lambda>r. JObj (reshape_row J r)) rs)),
                    error = (if singleResult this \<and> rs = []
                             then Some (PlainMessage ''Row not found'') else None),
                    count = (if cnt = Some ''exact'' then parseInt h (obj_get c ''count'')
                             else JNull)\<rparr>
             \<and> issued (snd (execute h this w))
                 = issued w @ (select_sql this, params this)
                     # (if cnt = Some ''exact'' then [(count_sql this, params this)] else [])"
      unfolding execute_case execute_world using f(1) by (simp add: E d f(4))
  qed
  show ?thesis
    by (intro conjI) (fact 1 2 3 4 5 6)+
qed


theorem join_select_orders_witness:
  "joins (select_q (Some ''*, orders(total, status)'') None (from_q ''customers'' new_builder))
     = [\<lparr>jtable = ''orders'', jcolumns = [''total'', ''status''], fk = ''order_id''\<rparr>]
   \<and> select_sql (run_chain [CEq ''id'' (JNum 1)]
        (select_q (Some ''*, orders(total, status)'') None (from_q ''customers'' new_builder)))
       = ''SELECT '' @ quote_ident ''customers'' @ ''.*, ''
           @ quote_ident ''orders'' @ ''.'' @ quote_ident ''total'' @ '' AS ''
           @ quote_ident ''orders_total'' @ '', ''
           @ quote_ident ''orders'' @ ''.'' @ quote_ident ''status'' @ '' AS ''
           @ quote_ident ''orders_status''
           @ '' FROM '' @ quote_ident ''customers''
           @ '' LEFT JOIN '' @ quote_ident ''orders'' @ '' ON ''
           @ quote_ident ''customers'' @ ''.'' @ quote_ident ''order_id''
           @ '' = '' @ quote_ident ''orders'' @ ''.'' @ quote_ident ''id''
           @ '' WHERE '' @ quote_ident ''id'' @ '' = $1''
   \<and> fst (execute
            (fixed_pool [[(''id'', JNum 1), (''orders_total'', JNum 5), (''orders_status'', JStr ''paid'')]])
            (run_chain [CEq ''id'' (JNum 1)]
               (select_q (Some ''*, orders(total, status)'') None (from_q ''customers'' new_builder)))
            fresh_world)
       = Resolved
           \<lparr>data = JArr [JObj [(''id'', JNum 1),
                               (''orders'', JObj [(''total'', JNum 5), (''status'', JStr ''paid'')])]],
            error = None, count = JNull\<rparr>
   \<and> ''orders_total'' \<notin> set (object_keys
         (reshape_row \<lparr>jtable = ''orders'', jcolumns = [''total'', ''status''], fk = ''order_id''\<rparr>
            [(''id'', JNum 1), (''orders_total'', JNum 5), (''orders_status'', JStr ''paid'')]))"
proof -
  let ?r = "[(''id'', JNum 1), (''orders_total'', JNum 5), (''orders_status'', JStr ''paid'')]"
  let ?J = "\<lparr>jtable = ''orders'', jcolumns = map js_trim (js_split '','' ''total, status''),
              fk = strip_final_s ''orders'' @ ''_id''\<rparr>"
  let ?J' = "\<lparr>jtable = ''orders'', jcolumns = [''total'', ''status''], fk = ''order_id''\<rparr>"
  let ?q = "select_q (Some (''*, '' @ ''orders'' @ ''('' @ ''total, status'' @ '')'')) None
              (from_q ''customers'' new_builder)"
  let ?q' = "select_q (Some ''*, orders(total, status)'') None (from_q ''customers'' new_builder)"
  let ?qb = "run_chain [CEq ''id'' (JNum 1)] ?q"
  let ?qb' = "run_chain [CEq ''id'' (JNum 1)] ?q'"
  have s: "''*, '' @ ''orders'' @ ''('' @ ''total, status'' @ '')'' = ''*, orders(total, status)''"
    by simp
  have J: "?J = ?J'" unfolding orders_columns orders_fk ..
  have a1: "''orders'' \<noteq> []" by simp
  have a2: "\<forall>ch\<in>set ''orders''. is_word ch" by (simp add: is_word_def)
  have a3: "''total, status'' \<noteq> []" by simp
  have a4: "CHR '')'' \<notin> set ''total, status''" by simp
  have p: "\<forall>x\<in>set [CEq ''id'' (JNum 1)]. \<not> is_select_call x \<and> \<not> is_mutation_call x" by simp
  note A = join_select_orders [OF a1 a2 a3 a4 refl refl refl p refl, where cnt = None
      and t = "''customers''" and ?q0.0 = new_builder and r = ?r and k = "''id''"
      and h = "fixed_pool [?r]" and w = fresh_world and rs = "[?r]" and ?s1.0 = "()"
      and c = "[]" and cs = "[]" and ?s2.0 = "()"]
  have 1: "joins ?q' = [?J']"
    using A [THEN conjunct1] unfolding s J .
  have sq: "''SELECT '' @ quote_ident ''customers'' @ ''.*, ''
            @ js_join '', ''
                (map (\<lambda>col. quote_ident ''orders'' @ ''.'' @ quote_ident col @ '' AS ''
                              @ quote_ident (''orders'' @ ''_'' @ col))
                   (map js_trim (js_split '','' ''total, status'')))
            @ '' FROM '' @ quote_ident ''customers''
            @ '' LEFT JOIN '' @ quote_ident ''orders'' @ '' ON ''
            @ quote_ident ''customers'' @ ''.'' @ quote_ident (strip_final_s ''orders'' @ ''_id'')
            @ '' = '' @ quote_ident ''orders'' @ ''.'' @ quote_ident ''id''
            @ where_clause (wheres ?qb')
            @ (if orderClauses ?qb' = [] then []
               else '' ORDER BY '' @ js_join '', '' (orderClauses ?qb'))
            @ (case limitVal ?qb' of None \<Rightarrow> [] | Some n \<Rightarrow> '' LIMIT '' @ show_int n)
     = ''SELECT '' @ quote_ident ''customers'' @ ''.*, ''
           @ quote_ident ''orders'' @ ''.'' @ quote_ident ''total'' @ '' AS ''
           @ quote_ident ''orders_total'' @ '', ''
           @ quote_ident ''orders'' @ ''.'' @ quote_ident ''status'' @ '' AS ''
           @ quote_ident ''orders_status''
           @ '' FROM '' @ quote_ident ''customers''
           @ '' LEFT JOIN '' @ quote_ident ''orders'' @ '' ON ''
           @ quote_ident ''customers'' @ ''.'' @ quote_ident ''order_id''
           @ '' = '' @ quote_ident ''orders'' @ ''.'' @ quote_ident ''id''
           @ '' WHERE '' @ quote_ident ''id'' @ '' = $1''"
    by code_simp
  have 2: "select_sql ?qb'
     = ''SELECT '' @ quote_ident ''customers'' @ ''.*, ''
           @ quote_ident ''orders'' @ ''.'' @ quote_ident ''total'' @ '' AS ''
           @ quote_ident ''orders_total'' @ '', ''
           @ quote_ident ''orders'' @ ''.'' @ quote_ident ''status'' @ '' AS ''
           @ quote_ident ''orders_status''
           @ '' FROM '' @ quote_ident ''customers''
           @ '' LEFT JOIN '' @ quote_ident ''orders'' @ '' ON ''
           @ quote_ident ''customers'' @ ''.'' @ quote_ident ''order_id''
           @ '' = '' @ quote_ident ''orders'' @ ''.'' @ quote_ident ''id''
           @ '' WHERE '' @ quote_ident ''id'' @ '' = $1''"
    using A [THEN conjunct2, THEN conjunct2, THEN conjunct1] unfolding s sq .
  have hyp: "pool_query (fixed_pool [?r]) (select_sql ?qb, params ?qb) (db fresh_world) = (Inr [?r], ())
         \<and> ((None :: string option) = Some ''exact'' \<longrightarrow>
               pool_query (fixed_pool [?r]) (count_sql ?qb, params ?qb) () = (Inr ([] # []), ()))"
    by (simp add: fixed_pool_query)
  have ns: "singleResult ?qb' = False" by code_simp
  have ev: "map (\<lambda>r. JObj (reshape_row ?J' r)) [?r]
            = [JObj [(''id'', JNum 1),
                     (''orders'', JObj [(''total'', JNum 5), (''status'', JStr ''paid'')])]]"
    by code_simp
  have 3: "fst (execute (fixed_pool [?r]) ?qb' fresh_world)
       = Resolved
           \<lparr>data = JArr [JObj [(''id'', JNum 1),
                               (''orders'', JObj [(''total'', JNum 5), (''status'', JStr ''paid'')])]],
            error = None, count = JNull\<rparr>"
    using A [THEN conjunct2, THEN conjunct2, THEN conjunct2, THEN conjunct2, THEN conjunct2,
             THEN conjunct2, THEN mp, OF hyp, THEN conjunct1]
    unfolding s J ns ev by simp
  have 4: "''orders_total'' \<notin> set (object_keys (reshape_row ?J' ?r))"
    using A [THEN conjunct2, THEN conjunct2, THEN conjunct2, THEN conjunct2, THEN conjunct1]
    unfolding orders_columns orders_fk by simp
  show ?thesis
    using 1 2 3 4 by (intro conjI)
qed

end
